theory Spec2Isabelle
  imports Main "HOL-Library.Sublist"
begin

section \<open>Python strings\<close>

text \<open>
  A Python \<open>str\<close> is modelled as a \<open>string\<close> whose characters are read as the code
  points 0..255. \<open>isspace\<close> is the class shared by \<open>str.isspace\<close>, \<open>str.strip()\<close> and the
  regular-expression escape \<open>\s\<close> on that range; \<open>word_char\<close> is \<open>\w\<close>.
\<close>

definition isspace :: "char \<Rightarrow> bool" where
  "isspace c = (c \<in> set [CHR 0x09, CHR 0x0A, CHR 0x0B, CHR 0x0C, CHR 0x0D,
     CHR 0x1C, CHR 0x1D, CHR 0x1E, CHR 0x1F, CHR 0x20, CHR 0x85, CHR 0xA0])"

definition word_char :: "char \<Rightarrow> bool" where
  "word_char c = (let n = (of_char c :: nat) in
     (48 \<le> n \<and> n \<le> 57) \<or> (65 \<le> n \<and> n \<le> 90) \<or> n = 95 \<or> (97 \<le> n \<and> n \<le> 122) \<or>
     n = 170 \<or> n = 178 \<or> n = 179 \<or> n = 181 \<or> n = 185 \<or> n = 186 \<or>
     (188 \<le> n \<and> n \<le> 190) \<or> (192 \<le> n \<and> n \<le> 214) \<or> (216 \<le> n \<and> n \<le> 246) \<or> 248 \<le> n)"

definition lstrip :: "string \<Rightarrow> string" where
  "lstrip s = dropWhile isspace s"

definition rstrip :: "string \<Rightarrow> string" where
  "rstrip s = rev (dropWhile isspace (rev s))"

definition strip :: "string \<Rightarrow> string" where
  "strip s = rstrip (lstrip s)"

definition fence :: string where
  "fence = ''```''"

text \<open>\<open>find_after pat s\<close>: the text that follows the leftmost occurrence of \<open>pat\<close> in \<open>s\<close>.\<close>

fun find_after :: "string \<Rightarrow> string \<Rightarrow> string option" where
  "find_after pat [] = (if pat = [] then Some [] else None)"
| "find_after pat (c # cs) =
     (if prefix pat (c # cs) then Some (drop (length pat) (c # cs)) else find_after pat cs)"

text \<open>
  \<open>lazy_until P s\<close>: what a lazy group \<open>(.*?)\<close> or \<open>([\s\S]*?)\<close> captures at the start of \<open>s\<close>,
  the shortest prefix after which the rest of the pattern, recognised by \<open>P\<close>, matches.
\<close>

fun lazy_until :: "(string \<Rightarrow> bool) \<Rightarrow> string \<Rightarrow> string option" where
  "lazy_until P [] = (if P [] then Some [] else None)"
| "lazy_until P (c # cs) =
     (if P (c # cs) then Some [] else map_option ((#) c) (lazy_until P cs))"

section \<open>The structured-data extractor: \<open>parse_analysis_response\<close>\<close>

text \<open>
  \<open>json.loads\<close> belongs to the Python standard library and is a parameter of the model. Its
  three outcomes are a decoded value, \<open>json.JSONDecodeError\<close>, and any other exception
  (\<open>RecursionError\<close> on deeply nested text), which only the outer \<open>except Exception\<close> catches.
\<close>

datatype 'j decoded = Decoded 'j | JSONDecodeError | OtherError

text \<open>The lines the function prints; the decoder's own error text is not modelled.\<close>

datatype msg =
    ParsingAnalysisResponse
  | ParsedDirectly
  | ParsedFromCodeBlock
  | ParsedFromObject
  | ParsedAfterRemovingMarkers
  | AllAttemptsFailed
  | WarnNoValidJson
  | ErrorParsing
  | RawResponseHeader
  | RawText string
  | RawResponseFooter

text \<open>
  The result of one call: the returned plan (\<open>None\<close> is Python's \<open>None\<close>), the arguments of the
  calls made to \<open>json.loads\<close> in call order, and the printed lines.
\<close>

record 'j analysis =
  plan :: "'j option"
  attempts :: "string list"
  printed :: "msg list"

text \<open>\<open>json_block_pattern = ```json\s*([\s\S]*?)\s*```\<close>, used with \<open>search\<close>; the result is group 1.\<close>

definition json_block_pattern :: "string \<Rightarrow> string option" where
  "json_block_pattern text =
     (case find_after (fence @ ''json'') text of
        None \<Rightarrow> None
      | Some r \<Rightarrow> lazy_until (\<lambda>t. prefix fence (lstrip t)) (lstrip r))"

text \<open>\<open>json_pattern = (\{[\s\S]*\})\<close>, used with \<open>search\<close>: from the first opening brace to the
  last closing brace after it.\<close>

definition json_pattern :: "string \<Rightarrow> string option" where
  "json_pattern text =
     (let r = dropWhile (\<lambda>c. c \<noteq> CHR ''{'') text;
          g = rev (dropWhile (\<lambda>c. c \<noteq> CHR ''}'') (rev r))
      in if g = [] then None else Some g)"

text \<open>
  \<open>re.sub(r"^```(?:json)?\s*([\s\S]*)\s*```$", r"\1", t)\<close> for a \<open>t\<close> that starts and ends with
  the fence: the pattern needs two disjoint fences, so it leaves a \<open>t\<close> shorter than six
  characters unchanged; otherwise the greedy group runs up to the closing fence.
\<close>

definition remove_outer_markers :: "string \<Rightarrow> string" where
  "remove_outer_markers t =
     (if length t < 6 then t
      else let r = (if prefix (fence @ ''json'') t then drop 7 t else drop 3 t)
           in lstrip (take (length r - 3) r))"

text \<open>\<open>response_text[:500] + "..." if len(response_text) > 500 else response_text\<close>\<close>

definition diagnostic :: "string \<Rightarrow> string" where
  "diagnostic text = (if length text > 500 then take 500 text @ ''...'' else text)"

definition raw_report :: "string \<Rightarrow> msg list" where
  "raw_report text = [RawResponseHeader, RawText (diagnostic text), RawResponseFooter]"

definition no_valid_json :: "string \<Rightarrow> string list \<Rightarrow> 'j analysis" where
  "no_valid_json text tr =
     \<lparr>plan = None, attempts = tr, printed = WarnNoValidJson # raw_report text\<rparr>"

definition unexpected_error :: "string \<Rightarrow> string list \<Rightarrow> 'j analysis" where
  "unexpected_error text tr =
     \<lparr>plan = None, attempts = tr, printed = ErrorParsing # raw_report text\<rparr>"

definition final_attempt :: "(string \<Rightarrow> 'j decoded) \<Rightarrow> string \<Rightarrow> string list \<Rightarrow> 'j analysis" where
  "final_attempt loads text tr =
     (if prefix fence (strip text) \<and> suffix fence (strip text) then
        (let cleaned_text = remove_outer_markers (strip text) in
         case loads cleaned_text of
           Decoded v \<Rightarrow>
             \<lparr>plan = Some v, attempts = tr @ [cleaned_text],
              printed = [ParsedAfterRemovingMarkers]\<rparr>
         | JSONDecodeError \<Rightarrow>
             \<lparr>plan = None, attempts = tr @ [cleaned_text],
              printed = AllAttemptsFailed # WarnNoValidJson # raw_report text\<rparr>
         | OtherError \<Rightarrow> unexpected_error text (tr @ [cleaned_text]))
      else no_valid_json text tr)"

definition third_attempt :: "(string \<Rightarrow> 'j decoded) \<Rightarrow> string \<Rightarrow> string list \<Rightarrow> 'j analysis" where
  "third_attempt loads text tr =
     (case json_pattern text of
        Some possible_json \<Rightarrow>
          (case loads possible_json of
             Decoded v \<Rightarrow>
               \<lparr>plan = Some v, attempts = tr @ [possible_json], printed = [ParsedFromObject]\<rparr>
           | JSONDecodeError \<Rightarrow> final_attempt loads text (tr @ [possible_json])
           | OtherError \<Rightarrow> unexpected_error text (tr @ [possible_json]))
      | None \<Rightarrow> final_attempt loads text tr)"

definition second_attempt :: "(string \<Rightarrow> 'j decoded) \<Rightarrow> string \<Rightarrow> string list \<Rightarrow> 'j analysis" where
  "second_attempt loads text tr =
     (case json_block_pattern text of
        Some g \<Rightarrow>
          (let json_content = strip g in
           case loads json_content of
             Decoded v \<Rightarrow>
               \<lparr>plan = Some v, attempts = tr @ [json_content], printed = [ParsedFromCodeBlock]\<rparr>
           | JSONDecodeError \<Rightarrow> third_attempt loads text (tr @ [json_content])
           | OtherError \<Rightarrow> unexpected_error text (tr @ [json_content]))
      | None \<Rightarrow> third_attempt loads text tr)"

definition first_attempt :: "(string \<Rightarrow> 'j decoded) \<Rightarrow> string \<Rightarrow> 'j analysis" where
  "first_attempt loads text =
     (case loads (strip text) of
        Decoded v \<Rightarrow> \<lparr>plan = Some v, attempts = [strip text], printed = [ParsedDirectly]\<rparr>
      | JSONDecodeError \<Rightarrow> second_attempt loads text [strip text]
      | OtherError \<Rightarrow> unexpected_error text [strip text])"

definition parse_analysis_response :: "(string \<Rightarrow> 'j decoded) \<Rightarrow> string \<Rightarrow> 'j analysis" where
  "parse_analysis_response loads response_text =
     (let r = first_attempt loads response_text
      in r\<lparr>printed := ParsingAnalysisResponse # printed r\<rparr>)"

subsection \<open>The cascade as the specification words it\<close>

text \<open>
  Four strategies, each a function from the text to the candidate it would hand to the
  decoder, if any; the cascade decodes the candidates in order and stops at the first one
  that does not raise \<open>JSONDecodeError\<close>.
\<close>

definition strategy1 :: "string \<Rightarrow> string option" where
  "strategy1 text = Some (strip text)"

definition strategy2 :: "string \<Rightarrow> string option" where
  "strategy2 text = map_option strip (json_block_pattern text)"

definition strategy3 :: "string \<Rightarrow> string option" where
  "strategy3 text = json_pattern text"

definition strategy4 :: "string \<Rightarrow> string option" where
  "strategy4 text =
     (if prefix fence (strip text) \<and> suffix fence (strip text)
      then Some (remove_outer_markers (strip text)) else None)"

definition candidates :: "string \<Rightarrow> string list" where
  "candidates text =
     List.map_filter (\<lambda>s. s text) [strategy1, strategy2, strategy3, strategy4]"

fun cascade :: "(string \<Rightarrow> 'j decoded) \<Rightarrow> string list \<Rightarrow> 'j option \<times> string list" where
  "cascade loads [] = (None, [])"
| "cascade loads (c # cs) =
     (case loads c of
        Decoded v \<Rightarrow> (Some v, [c])
      | JSONDecodeError \<Rightarrow> (case cascade loads cs of (r, tr) \<Rightarrow> (r, c # tr))
      | OtherError \<Rightarrow> (None, [c]))"

subsection \<open>A reference decoder\<close>

text \<open>
  A decoder for the fragment of JSON without escape sequences and without fractional or
  exponent parts, used to instantiate the \<open>json.loads\<close> parameter on concrete replies. An
  object is kept as the list of its members in document order.
\<close>

datatype json =
    JNull
  | JBool bool
  | JInt int
  | JString string
  | JArray "json list"
  | JObject "(string \<times> json) list"

definition json_ws :: "char \<Rightarrow> bool" where
  "json_ws c = (c \<in> set [CHR 0x20, CHR 0x09, CHR 0x0A, CHR 0x0D])"

definition skip_ws :: "string \<Rightarrow> string" where
  "skip_ws s = dropWhile json_ws s"

definition is_digit :: "char \<Rightarrow> bool" where
  "is_digit c = (48 \<le> (of_char c :: nat) \<and> (of_char c :: nat) \<le> 57)"

definition digits_value :: "string \<Rightarrow> int" where
  "digits_value ds = foldl (\<lambda>a d. 10 * a + (int (of_char d) - 48)) 0 ds"

fun scan_string :: "string \<Rightarrow> (string \<times> string) option" where
  "scan_string [] = None"
| "scan_string (c # cs) =
     (if c = CHR 0x22 then Some ([], cs)
      else if c = CHR 0x5C \<or> (of_char c :: nat) < 32 then None
      else map_option (\<lambda>(s, r). (c # s, r)) (scan_string cs))"

definition scan_digits :: "string \<Rightarrow> (int \<times> string) option" where
  "scan_digits s =
     (let ds = takeWhile is_digit s; r = dropWhile is_digit s in
      if ds = [] \<or> (hd ds = CHR ''0'' \<and> length ds > 1) then None
      else if r \<noteq> [] \<and> hd r \<in> set [CHR ''.'', CHR ''e'', CHR ''E''] then None
      else Some (digits_value ds, r))"

definition scan_int :: "string \<Rightarrow> (json \<times> string) option" where
  "scan_int s =
     (case s of
        [] \<Rightarrow> None
      | c # cs \<Rightarrow>
          if c = CHR ''-'' then map_option (\<lambda>(n, r). (JInt (- n), r)) (scan_digits cs)
          else map_option (\<lambda>(n, r). (JInt n, r)) (scan_digits s))"

fun parse_value :: "nat \<Rightarrow> string \<Rightarrow> (json \<times> string) option"
  and parse_elements :: "nat \<Rightarrow> string \<Rightarrow> (json list \<times> string) option"
  and parse_members :: "nat \<Rightarrow> string \<Rightarrow> ((string \<times> json) list \<times> string) option"
where
  "parse_value 0 s = None"
| "parse_value (Suc n) s =
     (case s of
        [] \<Rightarrow> None
      | c # cs \<Rightarrow>
          if c = CHR ''{'' then
            (if prefix ''}'' (skip_ws cs) then Some (JObject [], drop 1 (skip_ws cs))
             else map_option (\<lambda>(ms, r). (JObject ms, r)) (parse_members n (skip_ws cs)))
          else if c = CHR ''['' then
            (if prefix '']'' (skip_ws cs) then Some (JArray [], drop 1 (skip_ws cs))
             else map_option (\<lambda>(vs, r). (JArray vs, r)) (parse_elements n (skip_ws cs)))
          else if c = CHR 0x22 then map_option (\<lambda>(k, r). (JString k, r)) (scan_string cs)
          else if prefix ''null'' s then Some (JNull, drop 4 s)
          else if prefix ''true'' s then Some (JBool True, drop 4 s)
          else if prefix ''false'' s then Some (JBool False, drop 5 s)
          else scan_int s)"
| "parse_elements 0 s = None"
| "parse_elements (Suc n) s =
     (case parse_value n s of
        None \<Rightarrow> None
      | Some (v, r) \<Rightarrow>
          if prefix '','' (skip_ws r) then
            map_option (\<lambda>(vs, r'). (v # vs, r')) (parse_elements n (skip_ws (drop 1 (skip_ws r))))
          else if prefix '']'' (skip_ws r) then Some ([v], drop 1 (skip_ws r))
          else None)"
| "parse_members 0 s = None"
| "parse_members (Suc n) s =
     (if prefix [CHR 0x22] s then
        (case scan_string (drop 1 s) of
           None \<Rightarrow> None
         | Some (k, r) \<Rightarrow>
             if prefix '':'' (skip_ws r) then
               (case parse_value n (skip_ws (drop 1 (skip_ws r))) of
                  None \<Rightarrow> None
                | Some (v, r') \<Rightarrow>
                    if prefix '','' (skip_ws r') then
                      map_option (\<lambda>(ms, r''). ((k, v) # ms, r''))
                        (parse_members n (skip_ws (drop 1 (skip_ws r'))))
                    else if prefix ''}'' (skip_ws r') then Some ([(k, v)], drop 1 (skip_ws r'))
                    else None)
             else None)
      else None)"

definition json_loads :: "string \<Rightarrow> json decoded" where
  "json_loads s =
     (case parse_value (Suc (length s)) (skip_ws s) of
        None \<Rightarrow> JSONDecodeError
      | Some (v, r) \<Rightarrow> if skip_ws r = [] then Decoded v else JSONDecodeError)"

definition example_reply :: string where
  "example_reply = ''Here is the plan:\<newline>```json\<newline>{\"a\":1}\<newline>```\<newline>Thanks''"

text \<open>The three presentations of a serialised value that the specification compares.\<close>

definition tagged_fence :: "string \<Rightarrow> string" where
  "tagged_fence s = fence @ ''json\<newline>'' @ s @ ''\<newline>'' @ fence"

definition untagged_fence :: "string \<Rightarrow> string" where
  "untagged_fence s = fence @ ''\<newline>'' @ s @ ''\<newline>'' @ fence"

text \<open>A reply with two tagged blocks, the first of them malformed.\<close>

definition two_blocks_reply :: string where
  "two_blocks_reply =
     ''Plan:\<newline>```json\<newline>{bad\<newline>```\<newline>Fixed:\<newline>```json\<newline>{\"a\":1}\<newline>```\<newline>Done''"


text \<open>What lies between its first opening brace and its last closing brace.\<close>

definition two_blocks_span :: string where
  "two_blocks_span = ''{bad\<newline>```\<newline>Fixed:\<newline>```json\<newline>{\"a\":1}''"

text \<open>Two serialised values: an array holding an object, and an object one of whose strings
  holds a tagged block.\<close>

definition array_value :: string where
  "array_value = ''[{\"a\":1}]''"

definition nested_block_value :: string where
  "nested_block_value = ''{\"a\":\"```json 1 ```\"}''"

text \<open>An array of numbers, a value without braces.\<close>

definition scalar_array_value :: string where
  "scalar_array_value = ''[1,2]''"

section \<open>The multi-file response parser\<close>

text \<open>\<open>str.split('\n')\<close> and \<open>'\n'.join\<close>.\<close>

fun split_nl :: "string \<Rightarrow> string list" where
  "split_nl [] = [[]]"
| "split_nl (c # cs) =
     (if c = CHR ''\<newline>'' then [] # split_nl cs
      else (case split_nl cs of [] \<Rightarrow> [[c]] | x # xs \<Rightarrow> (c # x) # xs))"

fun join_nl :: "string list \<Rightarrow> string" where
  "join_nl [] = []"
| "join_nl [x] = x"
| "join_nl (x # y # zs) = x @ ''\<newline>'' @ join_nl (y # zs)"

text \<open>\<open>str.lower()\<close> on the code points 0..255.\<close>

definition lower_char :: "char \<Rightarrow> char" where
  "lower_char c = (let n = (of_char c :: nat) in
     if (65 \<le> n \<and> n \<le> 90) \<or> (192 \<le> n \<and> n \<le> 222 \<and> n \<noteq> 215) then char_of (n + 32) else c)"

definition lower :: "string \<Rightarrow> string" where
  "lower s = map lower_char s"

text \<open>
  The delimiter patterns are matched against one line of \<open>split('\n')\<close>, which holds no
  newline. After the literal \<open>--- File:\<close> the greedy \<open>\s*\<close> takes all the whitespace, the lazy
  group \<open>(.*?)\<close> takes the shortest text after which the tail of the pattern matches up to
  the end of the line, and the result is group 1.

  \<open>delimiter_tail\<close> recognises \<open>\s*(?:---)?$\<close>, the tail of the pattern of
  \<open>parse_generation_response\<close> and of \<open>parse_ai_response\<close>;
  \<open>validation_tail\<close> recognises \<open>\s*(?:---)?(?:\s*\(NEW\))?$\<close>, the tail of the pattern of
  \<open>parse_validation_response\<close>.
\<close>

definition delimiter_tail :: "string \<Rightarrow> bool" where
  "delimiter_tail t = (lstrip t = [] \<or> lstrip t = ''---'')"

definition validation_tail :: "string \<Rightarrow> bool" where
  "validation_tail t =
     (lstrip t = [] \<or> lstrip t = ''(NEW)'' \<or>
      (prefix ''---'' (lstrip t) \<and>
       (drop 3 (lstrip t) = [] \<or> lstrip (drop 3 (lstrip t)) = ''(NEW)'')))"

definition delimiter_match :: "(string \<Rightarrow> bool) \<Rightarrow> string \<Rightarrow> string option" where
  "delimiter_match tail line =
     (if prefix ''--- File:'' line then lazy_until tail (lstrip (drop 9 line)) else None)"

definition file_delimiter_pattern :: "string \<Rightarrow> string option" where
  "file_delimiter_pattern = delimiter_match delimiter_tail"

definition validation_delimiter_pattern :: "string \<Rightarrow> string option" where
  "validation_delimiter_pattern = delimiter_match validation_tail"

text \<open>\<open>code_block_pattern = ^```(\w*)$\<close>, applied to a stripped line.\<close>

definition code_block_pattern :: "string \<Rightarrow> bool" where
  "code_block_pattern s = (prefix fence s \<and> list_all word_char (drop 3 s))"

text \<open>\<open>markdown_fence_pattern = ^\s*```(?:\w+)?\s*$\<close> of \<open>code2testt.py\<close>, applied to a raw line.\<close>

definition markdown_fence_pattern :: "string \<Rightarrow> bool" where
  "markdown_fence_pattern line =
     (prefix fence (lstrip line) \<and>
      list_all isspace (dropWhile word_char (drop 3 (lstrip line))))"

text \<open>
  The loop of \<open>process_content\<close> over the buffered lines, with its two flags:
  \<open>skip_next_line\<close>, which the loop tests and clears, and \<open>in_internal_block\<close>, which it toggles.
\<close>

fun process_lines :: "string list \<Rightarrow> bool \<Rightarrow> bool \<Rightarrow> string list \<Rightarrow> string list" where
  "process_lines [] skip_next_line in_internal_block result = result"
| "process_lines (line # rest) skip_next_line in_internal_block result =
     (if skip_next_line then process_lines rest False in_internal_block result
      else if code_block_pattern (strip line)
        then process_lines rest skip_next_line (\<not> in_internal_block) result
      else process_lines rest skip_next_line in_internal_block (result @ [line]))"

definition process_content :: "string list \<Rightarrow> bool \<Rightarrow> string" where
  "process_content content_list is_markdown_file =
     (if content_list = [] then []
      else if is_markdown_file then join_nl content_list
      else join_nl (process_lines content_list False False []))"

text \<open>\<open>clean_content\<close> of \<open>code2testt.py\<close>.\<close>

definition clean_content :: "string list \<Rightarrow> string" where
  "clean_content content_list =
     (if content_list = [] then []
      else
        let cleaned_list =
              (if markdown_fence_pattern (hd content_list) then tl content_list
               else content_list);
            cleaned_list =
              (if cleaned_list \<noteq> [] \<and> markdown_fence_pattern (last cleaned_list)
               then butlast cleaned_list else cleaned_list)
        in strip (join_nl cleaned_list))"

definition is_markdown_path :: "string \<Rightarrow> bool" where
  "is_markdown_path current_path =
     (suffix ''.md'' (lower current_path) \<or> suffix ''.markdown'' (lower current_path))"

text \<open>\<open>current_path.replace('/', os.sep).replace('\\', os.sep)\<close> where \<open>os.sep\<close> is the slash.\<close>

definition normalize_sep :: "string \<Rightarrow> string" where
  "normalize_sep p = map (\<lambda>c. if c = CHR 0x5C then CHR ''/'' else c) p"

text \<open>
  A Python \<open>dict\<close> keeps its keys in insertion order; assigning to a key that is present
  replaces the value where it stands.
\<close>

fun dict_set :: "'k \<Rightarrow> 'v \<Rightarrow> ('k \<times> 'v) list \<Rightarrow> ('k \<times> 'v) list" where
  "dict_set k v [] = [(k, v)]"
| "dict_set k v (p # ps) = (if fst p = k then (k, v) # ps else p # dict_set k v ps)"

record parser_state =
  files :: "(string \<times> string) list"
  current_path :: "string option"
  current_content :: "string list"
  in_code_block :: bool
  code_block_language :: "string option"

definition initial_state :: parser_state where
  "initial_state =
     \<lparr>files = [], current_path = None, current_content = [], in_code_block = False,
      code_block_language = None\<rparr>"

text \<open>
  Storing the file that is being accumulated; \<open>post\<close> is the post-processing of the buffer
  (\<open>process_content\<close> with the markdown flag, or \<open>clean_content\<close>).
\<close>

definition save_current :: "(string \<Rightarrow> string list \<Rightarrow> string) \<Rightarrow> parser_state \<Rightarrow> (string \<times> string) list" where
  "save_current post st =
     (case current_path st of
        None \<Rightarrow> files st
      | Some p \<Rightarrow> dict_set (normalize_sep p) (post p (current_content st)) (files st))"

text \<open>One iteration of the loop over the lines.\<close>

definition parse_line ::
  "(string \<Rightarrow> string option) \<Rightarrow> (string \<Rightarrow> string list \<Rightarrow> string) \<Rightarrow> parser_state \<Rightarrow> string \<Rightarrow> parser_state" where
  "parse_line delim post st line =
     (case delim line of
        Some g \<Rightarrow>
          st\<lparr>files := save_current post st, current_path := Some (strip g),
             current_content := [], in_code_block := False\<rparr>
      | None \<Rightarrow>
          (case current_path st of
             None \<Rightarrow> st
           | Some p \<Rightarrow>
               (if code_block_pattern (strip line)
                then st\<lparr>code_block_language := Some (drop 3 (strip line)),
                        in_code_block := \<not> in_code_block st,
                        current_content := current_content st @ [line]\<rparr>
                else st\<lparr>current_content := current_content st @ [line]\<rparr>)))"

definition parse_files ::
  "(string \<Rightarrow> string option) \<Rightarrow> (string \<Rightarrow> string list \<Rightarrow> string) \<Rightarrow> string \<Rightarrow> (string \<times> string) list" where
  "parse_files delim post response =
     save_current post (foldl (parse_line delim post) initial_state (split_nl (strip response)))"

definition post_process :: "string \<Rightarrow> string list \<Rightarrow> string" where
  "post_process p buf = process_content buf (is_markdown_path p)"

datatype parser_msg = ParsingGenerationResponse | WarnNoFilesExtracted | ExtractedFiles nat

definition parse_generation_response :: "string \<Rightarrow> (string \<times> string) list \<times> parser_msg list" where
  "parse_generation_response response =
     (let fs = parse_files file_delimiter_pattern post_process response
      in (fs, [ParsingGenerationResponse,
               if fs = [] then WarnNoFilesExtracted else ExtractedFiles (length fs)]))"

text \<open>The file loop of \<open>parse_validation_response\<close>, over the text it calls \<open>file_section\<close>.\<close>

definition parse_validation_files :: "string \<Rightarrow> (string \<times> string) list" where
  "parse_validation_files file_section =
     parse_files validation_delimiter_pattern post_process file_section"

text \<open>\<open>parse_ai_response\<close> of \<open>code2testt.py\<close>; its loop keeps no code-block flags.\<close>

definition parse_ai_response :: "string \<Rightarrow> (string \<times> string) list" where
  "parse_ai_response response =
     parse_files file_delimiter_pattern (\<lambda>p. clean_content) response"

text \<open>
  The reply as a sequence of files, each with the lines buffered for it: a line that
  matches the delimiter opens a file, the lines up to the next delimiter are its buffer,
  and the lines before the first delimiter belong to no file.
\<close>

fun chunks :: "(string \<Rightarrow> string option) \<Rightarrow> string list \<Rightarrow> (string \<times> string list) list" where
  "chunks delim [] = []"
| "chunks delim (l # ls) =
     (case delim l of
        Some g \<Rightarrow> (strip g, takeWhile (\<lambda>x. delim x = None) ls) # chunks delim ls
      | None \<Rightarrow> chunks delim ls)"

definition example_generation_reply :: string where
  "example_generation_reply =
     ''--- File: pages/LoginPage.robot ---\<newline>```\<newline>LOGIN = id=login\<newline>```\<newline>--- File: tests/LoginTests.robot ---\<newline>Suite Setup  Open Browser\<newline>''"

text \<open>Storing one file of the sequence, and the entry it is stored as.\<close>

definition store_chunk ::
  "(string \<Rightarrow> string list \<Rightarrow> string) \<Rightarrow> (string \<times> string) list \<Rightarrow> string \<times> string list \<Rightarrow> (string \<times> string) list" where
  "store_chunk post fs c = dict_set (normalize_sep (fst c)) (post (fst c) (snd c)) fs"

definition entry_of :: "(string \<Rightarrow> string list \<Rightarrow> string) \<Rightarrow> string \<times> string list \<Rightarrow> string \<times> string" where
  "entry_of post c = (normalize_sep (fst c), post (fst c) (snd c))"

text \<open>Replies used as concrete inputs: a fenced body, and two markers whose paths differ
  only in the separator.\<close>

definition fenced_body_reply :: string where
  "fenced_body_reply = ''--- File: a.py\<newline>```\<newline>x = 1''"

definition backslash_reply :: string where
  "backslash_reply = ''--- File: a'' @ [CHR 0x5C] @ ''b\<newline>x\<newline>--- File: a/b\<newline>y''"

subsection \<open>The outer-fence strategy as the specification words it\<close>

text \<open>
  ``If the trimmed text both starts and ends with a generic fence marker, strip exactly the
  outermost fence (one opening line, one closing line) and parse the remainder'': the
  candidate is the trimmed text without its first and its last line.
\<close>

definition spec_strategy4 :: "string \<Rightarrow> string option" where
  "spec_strategy4 text =
     (if prefix fence (strip text) \<and> suffix fence (strip text)
      then Some (join_nl (butlast (tl (split_nl (strip text)))))
      else None)"

text \<open>A value inside a fence whose language tag is not \<open>json\<close>.\<close>

definition python_fence_reply :: string where
  "python_fence_reply = ''```python\<newline>[1,2]\<newline>```''"


section \<open>The path-safe materializer: \<open>store_test_files\<close>\<close>

subsection \<open>The functions of \<open>os.path\<close> the materializer calls\<close>

text \<open>
  The scripts run on a POSIX system: \<open>os.sep\<close> is the slash and \<open>os.path\<close> is \<open>posixpath\<close>.
  Its functions work on the text of a path only, except \<open>abspath\<close>, which reads the working
  directory; none of them looks at the file system.
\<close>

text \<open>\<open>s.split(c)\<close> for a one-character separator, and \<open>'/'.join(xs)\<close>.\<close>

fun split_on :: "char \<Rightarrow> string \<Rightarrow> string list" where
  "split_on c [] = [[]]"
| "split_on c (x # xs) =
     (if x = c then [] # split_on c xs
      else (case split_on c xs of [] \<Rightarrow> [[x]] | y # ys \<Rightarrow> (x # y) # ys))"

fun join_sep :: "string list \<Rightarrow> string" where
  "join_sep [] = []"
| "join_sep [x] = x"
| "join_sep (x # y # ys) = x @ ''/'' @ join_sep (y # ys)"

text \<open>\<open>str.isspace()\<close>: at least one character, and all of them white space.\<close>

definition str_isspace :: "string \<Rightarrow> bool" where
  "str_isspace s = (s \<noteq> [] \<and> list_all isspace s)"

definition isabs :: "string \<Rightarrow> bool" where
  "isabs s = prefix ''/'' s"

text \<open>
  \<open>normpath\<close>: \<open>initial_slashes\<close> is 0, 1, or 2 for a path that starts with exactly two
  slashes; \<open>norm_step\<close> is the body of the loop over the components.
\<close>

definition initial_slashes :: "string \<Rightarrow> nat" where
  "initial_slashes path =
     (if prefix ''/'' path
      then (if prefix ''//'' path \<and> \<not> prefix ''///'' path then 2 else 1)
      else 0)"

definition norm_step :: "nat \<Rightarrow> string list \<Rightarrow> string \<Rightarrow> string list" where
  "norm_step i new_comps component =
     (if component = [] \<or> component = ''.'' then new_comps
      else if component \<noteq> ''..'' \<or> (i = 0 \<and> new_comps = []) \<or>
              (new_comps \<noteq> [] \<and> last new_comps = ''..'')
      then new_comps @ [component]
      else if new_comps \<noteq> [] then butlast new_comps
      else new_comps)"

definition normpath :: "string \<Rightarrow> string" where
  "normpath path =
     (if path = [] then ''.''
      else let i = initial_slashes path;
               p = replicate i CHR ''/'' @
                   join_sep (foldl (norm_step i) [] (split_on CHR ''/'' path))
           in if p = [] then ''.'' else p)"

definition path_join :: "string \<Rightarrow> string \<Rightarrow> string" where
  "path_join a b =
     (if prefix ''/'' b then b
      else if a = [] \<or> suffix ''/'' a then a @ b
      else a @ ''/'' @ b)"

text \<open>\<open>abspath\<close>, with the working directory that \<open>os.getcwd()\<close> returns as first argument.\<close>

definition abspath :: "string \<Rightarrow> string \<Rightarrow> string" where
  "abspath cwd path = normpath (if isabs path then path else path_join cwd path)"

text \<open>\<open>os.path.split\<close> cuts at the last slash; \<open>dirname\<close> is its first component.\<close>

definition path_split :: "string \<Rightarrow> string \<times> string" where
  "path_split p =
     (let head = rev (dropWhile (\<lambda>c. c \<noteq> CHR ''/'') (rev p));
          tail = rev (takeWhile (\<lambda>c. c \<noteq> CHR ''/'') (rev p))
      in (if head \<noteq> [] \<and> \<not> list_all (\<lambda>c. c = CHR ''/'') head
          then rev (dropWhile (\<lambda>c. c = CHR ''/'') (rev head))
          else head,
          tail))"

definition dirname :: "string \<Rightarrow> string" where
  "dirname p = fst (path_split p)"


subsection \<open>The operating system as a parameter\<close>

text \<open>
  The calls that reach the file system (\<open>os.getcwd\<close>, \<open>os.path.exists\<close>, \<open>shutil.rmtree\<close>,
  \<open>os.makedirs\<close>, and \<open>open\<close> followed by \<open>write\<close>) belong to the Python library and are
  parameters of the model, over any type \<open>'w\<close> of file-system states. A call that changes
  the file system returns the exception it raised, if any, and the state it leaves behind.
  Of an exception the model keeps whether it is an \<open>OSError\<close>, which is what the
  \<open>except OSError\<close> clauses ask; its message is not modelled.
\<close>

datatype exn = OSError | OtherException

record 'w os =
  getcwd :: "'w \<Rightarrow> string"
  path_exists :: "'w \<Rightarrow> string \<Rightarrow> bool"
  rmtree :: "'w \<Rightarrow> string \<Rightarrow> exn option \<times> 'w"
  makedirs :: "'w \<Rightarrow> string \<Rightarrow> exn option \<times> 'w"
  write_file :: "'w \<Rightarrow> string \<Rightarrow> string \<Rightarrow> exn option \<times> 'w"

subsection \<open>\<open>store_test_files\<close>\<close>

text \<open>The lines the function prints, with the paths they show.\<close>

datatype store_msg =
    StoringFiles string
  | ClearedOutputDir string
  | ErrorClearingDir string
  | CreatedOutputDir string
  | ErrorCreatingDir string
  | SkipInvalidPath string
  | SkipUnsafePath string
  | SkipAbsolutePath string
  | SkipOutsidePath string string string
  | CreatedSubdir string
  | ErrorCreatingSubdir string string
  | WroteFile string
  | ErrorWritingFile string
  | FinishedStoring nat

text \<open>
  The state of a call: the file system, the lines printed so far, and the counter
  \<open>files_written\<close> of \<open>code2test.py\<close>.
\<close>

record 'w run =
  world :: 'w
  console :: "store_msg list"
  files_written :: nat

definition say :: "store_msg \<Rightarrow> 'w run \<Rightarrow> 'w run" where
  "say m r = r\<lparr>console := console r @ [m]\<rparr>"

text \<open>
  How a call ends: it returns a value, it ends the process through \<open>sys.exit\<close>, or an
  exception leaves it. \<open>store_test_files\<close> has no \<open>return\<close> statement, so the value it returns
  is Python's \<open>None\<close>; the type of a value that is not \<open>None\<close> is the outcome the
  specification describes, the written paths and the skipped paths with their reasons.
\<close>

datatype 'a completion = Return 'a | SysExit nat | Raise exn

type_synonym materialization_outcome = "string list \<times> (string \<times> string) list"

text \<open>The security check: \<open>full_path.startswith(abs_output_dir + os.sep) or full_path == abs_output_dir\<close>.\<close>

definition inside_output_dir :: "string \<Rightarrow> string \<Rightarrow> bool" where
  "inside_output_dir abs_output_dir full_path =
     (prefix (abs_output_dir @ ''/'') full_path \<or> full_path = abs_output_dir)"

text \<open>
  The creation of the directory of a file, when it is not the output directory and does not
  exist: \<open>Inr\<close> is the state in which the file is then written, \<open>Inl\<close> ends the iteration,
  with \<open>continue\<close> after an \<open>OSError\<close> and with the exception otherwise.
\<close>

definition make_file_dir ::
  "'w os \<Rightarrow> string \<Rightarrow> string \<Rightarrow> 'w run \<Rightarrow> (exn option \<times> 'w run) + 'w run" where
  "make_file_dir os abs_output_dir full_path r =
     (let file_dir = dirname full_path in
      if file_dir \<noteq> [] \<and> file_dir \<noteq> abs_output_dir \<and> \<not> path_exists os (world r) file_dir
      then (case makedirs os (world r) file_dir of
              (None, w') \<Rightarrow> Inr (say (CreatedSubdir file_dir) (r\<lparr>world := w'\<rparr>))
            | (Some OSError, w') \<Rightarrow>
                Inl (None, say (ErrorCreatingSubdir file_dir full_path) (r\<lparr>world := w'\<rparr>))
            | (Some OtherException, w') \<Rightarrow> Inl (Some OtherException, r\<lparr>world := w'\<rparr>))
      else Inr r)"

text \<open>
  One iteration of the loop over \<open>files.items()\<close>; the result is the exception that leaves
  the loop, if any, and the state after the iteration. The body is the same in both scripts,
  but for the counter.
\<close>

definition store_entry ::
  "'w os \<Rightarrow> string \<Rightarrow> 'w run \<Rightarrow> string \<times> string \<Rightarrow> exn option \<times> 'w run" where
  "store_entry os abs_output_dir r entry =
     (let relative_file_path = fst entry; content = snd entry in
      if relative_file_path = [] \<or> str_isspace relative_file_path
      then (None, say (SkipInvalidPath relative_file_path) r)
      else
        let normalized_relative_path = normpath relative_file_path in
        if ''..'' \<in> set (split_on CHR ''/'' normalized_relative_path)
        then (None, say (SkipUnsafePath relative_file_path) r)
        else if isabs normalized_relative_path
        then (None, say (SkipAbsolutePath relative_file_path) r)
        else
          let full_path = abspath (getcwd os (world r))
                            (path_join abs_output_dir normalized_relative_path) in
          if \<not> inside_output_dir abs_output_dir full_path
          then (None, say (SkipOutsidePath relative_file_path full_path abs_output_dir) r)
          else
            (case make_file_dir os abs_output_dir full_path r of
               Inl stop \<Rightarrow> stop
             | Inr r1 \<Rightarrow>
                 (case write_file os (world r1) full_path content of
                    (None, w') \<Rightarrow>
                      (None, (say (WroteFile full_path) (r1\<lparr>world := w'\<rparr>))
                               \<lparr>files_written := files_written r1 + 1\<rparr>)
                  | (Some e, w') \<Rightarrow>
                      (None, say (ErrorWritingFile full_path) (r1\<lparr>world := w'\<rparr>)))))"

fun store_loop ::
  "'w os \<Rightarrow> string \<Rightarrow> (string \<times> string) list \<Rightarrow> 'w run \<Rightarrow> exn option \<times> 'w run" where
  "store_loop os abs_output_dir [] r = (None, r)"
| "store_loop os abs_output_dir (entry # entries) r =
     (case store_entry os abs_output_dir r entry of
        (None, r') \<Rightarrow> store_loop os abs_output_dir entries r'
      | (Some e, r') \<Rightarrow> (Some e, r'))"

text \<open>\<open>if clear_output and os.path.exists(d): shutil.rmtree(d)\<close>, whose \<open>OSError\<close> is printed.\<close>

definition clear_output_dir ::
  "'w os \<Rightarrow> string \<Rightarrow> bool \<Rightarrow> 'w run \<Rightarrow> exn option \<times> 'w run" where
  "clear_output_dir os d clear_output r =
     (if clear_output \<and> path_exists os (world r) d
      then (case rmtree os (world r) d of
              (None, w') \<Rightarrow> (None, say (ClearedOutputDir d) (r\<lparr>world := w'\<rparr>))
            | (Some OSError, w') \<Rightarrow> (None, say (ErrorClearingDir d) (r\<lparr>world := w'\<rparr>))
            | (Some OtherException, w') \<Rightarrow> (Some OtherException, r\<lparr>world := w'\<rparr>))
      else (None, r))"

text \<open>\<open>if not os.path.exists(d): os.makedirs(d)\<close>, whose \<open>OSError\<close> ends in \<open>sys.exit(1)\<close>.\<close>

definition create_output_dir ::
  "'w os \<Rightarrow> string \<Rightarrow> 'w run \<Rightarrow> materialization_outcome option completion option \<times> 'w run" where
  "create_output_dir os d r =
     (if \<not> path_exists os (world r) d
      then (case makedirs os (world r) d of
              (None, w') \<Rightarrow> (None, say (CreatedOutputDir d) (r\<lparr>world := w'\<rparr>))
            | (Some OSError, w') \<Rightarrow> (Some (SysExit 1), say (ErrorCreatingDir d) (r\<lparr>world := w'\<rparr>))
            | (Some OtherException, w') \<Rightarrow> (Some (Raise OtherException), r\<lparr>world := w'\<rparr>))
      else (None, r))"

text \<open>\<open>store_test_files\<close> of \<open>code2test.py\<close>; \<open>entries\<close> is \<open>files.items()\<close>.\<close>

definition store_test_files ::
  "'w os \<Rightarrow> (string \<times> string) list \<Rightarrow> string \<Rightarrow> bool \<Rightarrow> 'w \<Rightarrow>
     materialization_outcome option completion \<times> 'w run" where
  "store_test_files os entries output_dir clear_output w =
     (let r0 = say (StoringFiles output_dir) \<lparr>world = w, console = [], files_written = 0\<rparr>;
          abs_output_dir = abspath (getcwd os w) output_dir
      in case clear_output_dir os abs_output_dir clear_output r0 of
           (Some e, r1) \<Rightarrow> (Raise e, r1)
         | (None, r1) \<Rightarrow>
             (case create_output_dir os abs_output_dir r1 of
                (Some c, r2) \<Rightarrow> (c, r2)
              | (None, r2) \<Rightarrow>
                  (case store_loop os abs_output_dir entries r2 of
                     (Some e, r3) \<Rightarrow> (Raise e, r3)
                   | (None, r3) \<Rightarrow> (Return None, say (FinishedStoring (files_written r3)) r3))))"

text \<open>
  \<open>store_test_files\<close> of \<open>code2testt.py\<close>: the directory is cleared and created under the
  name given, the absolute path is computed afterwards, and neither the first nor the last
  line is printed.
\<close>

definition store_test_files_tt ::
  "'w os \<Rightarrow> (string \<times> string) list \<Rightarrow> string \<Rightarrow> bool \<Rightarrow> 'w \<Rightarrow>
     materialization_outcome option completion \<times> 'w run" where
  "store_test_files_tt os entries output_dir clear_output w =
     (let r0 = \<lparr>world = w, console = [], files_written = 0\<rparr>
      in case clear_output_dir os output_dir clear_output r0 of
           (Some e, r1) \<Rightarrow> (Raise e, r1)
         | (None, r1) \<Rightarrow>
             (case create_output_dir os output_dir r1 of
                (Some c, r2) \<Rightarrow> (c, r2)
              | (None, r2) \<Rightarrow>
                  (let abs_output_dir = abspath (getcwd os (world r2)) output_dir
                   in case store_loop os abs_output_dir entries r2 of
                        (Some e, r3) \<Rightarrow> (Raise e, r3)
                      | (None, r3) \<Rightarrow> (Return None, r3))))"


subsection \<open>A reference file system with symbolic links\<close>

text \<open>
  A file system in which the calls above can be run: a map from the physical path of a node,
  the list of names that lead to it from the root, to the node; the root itself, the empty
  list, is a directory. The working directory is a physical path written as text.
\<close>

datatype node = Dir | File string | Symlink string

record posix_world =
  nodes :: "string list \<rightharpoonup> node"
  cwd :: string

definition node_at :: "posix_world \<Rightarrow> string list \<Rightarrow> node option" where
  "node_at w p = (if p = [] then Some Dir else nodes w p)"

datatype oserror = ENOENT | EEXIST | ENOTDIR | EISDIR | ELOOP | EBUSY | ESYMLINK

text \<open>
  Path resolution: \<open>Found p\<close> is the physical path of the node the text names, \<open>Missing p\<close>
  the physical path it would name if the last component, which is absent from an existing
  directory, were created.
\<close>

datatype lookup = Found "string list" | Missing "string list" | Failed oserror

text \<open>
  \<open>walk n w follow cur comps\<close> resolves the components \<open>comps\<close> from the directory \<open>cur\<close>. A
  symbolic link is replaced by its target, at most \<open>n\<close> times in all; the last component is
  not replaced when \<open>follow\<close> is false.
\<close>

fun walk :: "nat \<Rightarrow> posix_world \<Rightarrow> bool \<Rightarrow> string list \<Rightarrow> string list \<Rightarrow> lookup" where
  "walk n w follow cur [] = Found cur"
| "walk n w follow cur (c # cs) =
     (if node_at w cur \<noteq> Some Dir then Failed ENOTDIR
      else if c = [] \<or> c = ''.'' then walk n w follow cur cs
      else if c = ''..'' then walk n w follow (butlast cur) cs
      else
        (case node_at w (cur @ [c]) of
           None \<Rightarrow> if list_all (\<lambda>x. x = []) cs then Missing (cur @ [c]) else Failed ENOENT
         | Some Dir \<Rightarrow> walk n w follow (cur @ [c]) cs
         | Some (File x) \<Rightarrow> walk n w follow (cur @ [c]) cs
         | Some (Symlink target) \<Rightarrow>
             if cs = [] \<and> \<not> follow then Found (cur @ [c])
             else if target = [] then Failed ENOENT
             else
               (case n of
                  0 \<Rightarrow> Failed ELOOP
                | Suc m \<Rightarrow>
                    walk m w follow (if isabs target then [] else cur)
                      (split_on CHR ''/'' target @ cs))))"

text \<open>The kernel follows at most 40 symbolic links in one resolution.\<close>

definition resolve :: "posix_world \<Rightarrow> bool \<Rightarrow> string \<Rightarrow> lookup" where
  "resolve w follow path =
     (if path = [] then Failed ENOENT
      else walk 40 w follow [] (split_on CHR ''/'' (if isabs path then path else path_join (cwd w) path)))"

text \<open>\<open>os.path.exists\<close>: \<open>os.stat\<close> succeeds, symbolic links followed.\<close>

definition posix_exists :: "posix_world \<Rightarrow> string \<Rightarrow> bool" where
  "posix_exists w path = (case resolve w True path of Found p \<Rightarrow> True | _ \<Rightarrow> False)"

text \<open>\<open>os.path.realpath\<close>: the text of the physical path.\<close>

definition realpath :: "posix_world \<Rightarrow> string \<Rightarrow> string option" where
  "realpath w path =
     (case resolve w True path of
        Found p \<Rightarrow> Some (''/'' @ join_sep p)
      | Missing p \<Rightarrow> Some (''/'' @ join_sep p)
      | Failed e \<Rightarrow> None)"

text \<open>\<open>os.mkdir\<close>: the last component is not followed and must not exist.\<close>

definition posix_mkdir :: "posix_world \<Rightarrow> string \<Rightarrow> oserror option \<times> posix_world" where
  "posix_mkdir w path =
     (case resolve w False path of
        Found p \<Rightarrow> (Some EEXIST, w)
      | Missing p \<Rightarrow> (None, w\<lparr>nodes := (nodes w)(p \<mapsto> Dir)\<rparr>)
      | Failed e \<Rightarrow> (Some e, w))"

text \<open>
  \<open>os.makedirs(name)\<close> of the standard library: it splits off the last component, creates
  the head first when it does not exist, ignoring that somebody else has created it
  meanwhile, and then calls \<open>mkdir\<close>.
\<close>

definition makedirs_head :: "string \<Rightarrow> string" where
  "makedirs_head name =
     (if snd (path_split name) = [] then fst (path_split (fst (path_split name)))
      else fst (path_split name))"

definition makedirs_tail :: "string \<Rightarrow> string" where
  "makedirs_tail name =
     (if snd (path_split name) = [] then snd (path_split (fst (path_split name)))
      else snd (path_split name))"

function posix_makedirs :: "posix_world \<Rightarrow> string \<Rightarrow> oserror option \<times> posix_world" where
  "posix_makedirs w name =
     (if makedirs_head name \<noteq> [] \<and> makedirs_tail name \<noteq> [] \<and>
         \<not> posix_exists w (makedirs_head name)
      then (case posix_makedirs w (makedirs_head name) of
              (None, w') \<Rightarrow>
                if makedirs_tail name = ''.'' then (None, w') else posix_mkdir w' name
            | (Some e, w') \<Rightarrow>
                if e = EEXIST
                then (if makedirs_tail name = ''.'' then (None, w') else posix_mkdir w' name)
                else (Some e, w'))
      else posix_mkdir w name)"
  by pat_completeness auto
termination
proof (relation "measure (\<lambda>(w, name). length name)")
  show "wf (measure (\<lambda>(w :: posix_world, name :: string). length name))"
    by simp
next
  fix w :: posix_world and name :: string
  assume a: "makedirs_head name \<noteq> [] \<and> makedirs_tail name \<noteq> [] \<and>
    \<not> posix_exists w (makedirs_head name)"
  have len: "length (fst (path_split p)) + length (snd (path_split p)) \<le> length p" for p
  proof -
    let ?d = "dropWhile (\<lambda>c. c \<noteq> CHR ''/'') (rev p)"
    let ?t = "takeWhile (\<lambda>c. c \<noteq> CHR ''/'') (rev p)"
    have "length ?t + length ?d = length (rev p)"
      by (metis length_append takeWhile_dropWhile_id)
    then have 1: "length (rev ?d) + length (rev ?t) = length p" by simp
    have 2: "length (rev (dropWhile (\<lambda>c. c = CHR ''/'') (rev (rev ?d)))) \<le> length (rev ?d)"
      using length_dropWhile_le[of "\<lambda>c. c = CHR ''/''" "rev (rev ?d)"] by simp
    show ?thesis
      using 1 2 by (auto simp: path_split_def Let_def simp del: rev_rev_ident)
  qed
  have pos: "xs \<noteq> [] \<Longrightarrow> 0 < length xs" for xs :: string by simp
  have "length (makedirs_head name) < length name"
  proof (cases "snd (path_split name) = []")
    case True
    then have "0 < length (snd (path_split (fst (path_split name))))"
      using a pos by (simp add: makedirs_tail_def)
    moreover have h: "makedirs_head name = fst (path_split (fst (path_split name)))"
      using True by (simp add: makedirs_head_def)
    ultimately show ?thesis
      unfolding h using len[of name] len[of "fst (path_split name)"] by linarith
  next
    case False
    then have "0 < length (snd (path_split name))" using pos by blast
    moreover have h: "makedirs_head name = fst (path_split name)"
      using False by (simp add: makedirs_head_def)
    ultimately show ?thesis
      unfolding h using len[of name] by linarith
  qed
  then show "((w, makedirs_head name), (w, name)) \<in> measure (\<lambda>(w, name). length name)"
    by simp
qed

text \<open>
  \<open>shutil.rmtree\<close>: the path must name a directory that is not a symbolic link; the directory
  goes with all that lies below it. The root cannot be removed.
\<close>

definition posix_rmtree :: "posix_world \<Rightarrow> string \<Rightarrow> oserror option \<times> posix_world" where
  "posix_rmtree w path =
     (case resolve w False path of
        Found p \<Rightarrow>
          (case node_at w p of
             Some Dir \<Rightarrow>
               if p = [] then (Some EBUSY, w\<lparr>nodes := Map.empty\<rparr>)
               else (None, w\<lparr>nodes := (\<lambda>q. if prefix p q then None else nodes w q)\<rparr>)
           | Some (Symlink target) \<Rightarrow> (Some ESYMLINK, w)
           | Some (File x) \<Rightarrow> (Some ENOTDIR, w)
           | None \<Rightarrow> (Some ENOENT, w))
      | Missing p \<Rightarrow> (Some ENOENT, w)
      | Failed e \<Rightarrow> (Some e, w))"

text \<open>
  \<open>open(path, 'w')\<close> and \<open>write(content)\<close>: symbolic links are followed, also in the last
  component; a file that exists is replaced, a file that does not is created.
\<close>

definition posix_write :: "posix_world \<Rightarrow> string \<Rightarrow> string \<Rightarrow> oserror option \<times> posix_world" where
  "posix_write w path content =
     (if suffix ''/'' path then (Some EISDIR, w)
      else
        (case resolve w True path of
           Found p \<Rightarrow>
             (case node_at w p of
                Some Dir \<Rightarrow> (Some EISDIR, w)
              | _ \<Rightarrow> (None, w\<lparr>nodes := (nodes w)(p \<mapsto> File content)\<rparr>))
         | Missing p \<Rightarrow> (None, w\<lparr>nodes := (nodes w)(p \<mapsto> File content)\<rparr>)
         | Failed e \<Rightarrow> (Some e, w)))"

text \<open>The reference file system as an instance of the parameter; every error is an \<open>OSError\<close>.\<close>

definition as_exn :: "oserror option \<times> posix_world \<Rightarrow> exn option \<times> posix_world" where
  "as_exn r = (map_option (\<lambda>e. OSError) (fst r), snd r)"

definition posix :: "posix_world os" where
  "posix = \<lparr>getcwd = cwd,
            path_exists = posix_exists,
            rmtree = (\<lambda>w path. as_exn (posix_rmtree w path)),
            makedirs = (\<lambda>w path. as_exn (posix_makedirs w path)),
            write_file = (\<lambda>w path content. as_exn (posix_write w path content))\<rparr>"

text \<open>
  Two file systems: one in which \<open>/out\<close> is an empty directory, and one in which \<open>/out\<close>
  holds a symbolic link \<open>link\<close> to the directory \<open>/etc\<close>, and a file \<open>f\<close>.
\<close>

definition fresh_world :: posix_world where
  "fresh_world = \<lparr>nodes = [[''out''] \<mapsto> Dir], cwd = ''/''\<rparr>"

definition linked_world :: posix_world where
  "linked_world =
     \<lparr>nodes = [[''out''] \<mapsto> Dir, [''etc''] \<mapsto> Dir,
               [''out'', ''link''] \<mapsto> Symlink ''/etc'', [''out'', ''f''] \<mapsto> File ''old''],
      cwd = ''/''\<rparr>"


subsection \<open>The outcome as the specification words it\<close>

text \<open>
  The specification's outcome of a call, the sequence of written paths and the sequence of
  skipped paths with their reasons, read off the printed lines: the script prints one such
  line for every entry it writes or gives up.
\<close>

fun written_path :: "store_msg \<Rightarrow> string option" where
  "written_path (WroteFile full_path) = Some full_path"
| "written_path m = None"

fun skipped_entry :: "store_msg \<Rightarrow> (string \<times> string) option" where
  "skipped_entry (SkipInvalidPath p) = Some (p, ''invalid path'')"
| "skipped_entry (SkipUnsafePath p) = Some (p, ''parent reference'')"
| "skipped_entry (SkipAbsolutePath p) = Some (p, ''absolute path'')"
| "skipped_entry (SkipOutsidePath p full_path d) = Some (p, ''outside the output directory'')"
| "skipped_entry (ErrorCreatingSubdir d full_path) = Some (full_path, ''subdirectory not created'')"
| "skipped_entry (ErrorWritingFile full_path) = Some (full_path, ''write failed'')"
| "skipped_entry m = None"

definition printed_outcome :: "store_msg list \<Rightarrow> materialization_outcome" where
  "printed_outcome msgs = (List.map_filter written_path msgs, List.map_filter skipped_entry msgs)"


definition sandbox_entries :: "(string \<times> string) list" where
  "sandbox_entries =
     [(''../secret'', ''s''), (''/etc/passwd'', ''p''), (''a/../../b'', ''b''), (''a/b/c.txt'', ''c'')]"


section \<open>Properties of the extractor\<close>

lemma final_attempt_cascade:
  "plan (final_attempt loads resp tr) = fst (cascade loads (List.map_filter (\<lambda>s. s resp) [strategy4])) \<and>
   attempts (final_attempt loads resp tr) = tr @ snd (cascade loads (List.map_filter (\<lambda>s. s resp) [strategy4]))"
  by (cases "loads (remove_outer_markers (strip resp))")
     (simp_all add: final_attempt_def no_valid_json_def unexpected_error_def strategy4_def
        List.map_filter_simps Let_def)

lemma third_attempt_cascade:
  "plan (third_attempt loads resp tr) = fst (cascade loads (List.map_filter (\<lambda>s. s resp) [strategy3, strategy4])) \<and>
   attempts (third_attempt loads resp tr) =
     tr @ snd (cascade loads (List.map_filter (\<lambda>s. s resp) [strategy3, strategy4]))"
proof (cases "json_pattern resp")
  case None
  then show ?thesis
    using final_attempt_cascade[of loads resp tr]
    by (simp add: third_attempt_def strategy3_def List.map_filter_simps)
next
  case (Some g)
  then show ?thesis
    using final_attempt_cascade[of loads resp "tr @ [g]"]
    by (cases "loads g")
       (simp_all add: third_attempt_def strategy3_def unexpected_error_def List.map_filter_simps
          split: prod.split)
qed

lemma second_attempt_cascade:
  "plan (second_attempt loads resp tr) =
     fst (cascade loads (List.map_filter (\<lambda>s. s resp) [strategy2, strategy3, strategy4])) \<and>
   attempts (second_attempt loads resp tr) =
     tr @ snd (cascade loads (List.map_filter (\<lambda>s. s resp) [strategy2, strategy3, strategy4]))"
proof (cases "json_block_pattern resp")
  case None
  then show ?thesis
    using third_attempt_cascade[of loads resp tr]
    by (simp add: second_attempt_def strategy2_def List.map_filter_simps)
next
  case (Some g)
  then show ?thesis
    using third_attempt_cascade[of loads resp "tr @ [strip g]"]
    by (cases "loads (strip g)")
       (simp_all add: second_attempt_def strategy2_def unexpected_error_def List.map_filter_simps
          Let_def split: prod.split)
qed

lemma parse_analysis_response_cascade:
  "plan (parse_analysis_response loads resp) = fst (cascade loads (candidates resp)) \<and>
   attempts (parse_analysis_response loads resp) = snd (cascade loads (candidates resp))"
  using second_attempt_cascade[of loads resp "[strip resp]"]
  by (cases "loads (strip resp)")
     (simp_all add: parse_analysis_response_def first_attempt_def candidates_def strategy1_def
        unexpected_error_def List.map_filter_simps Let_def split: prod.split)

lemma cascade_prefix: "prefix (snd (cascade loads cs)) cs"
  by (induction cs) (auto split: decoded.split prod.split)

lemma cascade_failed_before:
  "Suc i < length (snd (cascade loads cs)) \<Longrightarrow> loads (snd (cascade loads cs) ! i) = JSONDecodeError"
proof (induction cs arbitrary: i)
  case Nil
  then show ?case by simp
next
  case (Cons c cs)
  then show ?case
    by (cases "loads c"; cases i) (auto split: prod.splits)
qed

lemma example_candidates: "candidates example_reply = [strip example_reply, ''{\"a\":1}'', ''{\"a\":1}'']"
  by code_simp












subsection \<open>What the pattern functions return\<close>

lemma find_after_Some:
  "pat \<noteq> [] \<Longrightarrow> find_after pat s = Some r \<Longrightarrow>
     \<exists>pre. s = pre @ pat @ r \<and> \<not> sublist pat (pre @ butlast pat)"
proof (induction s)
  case Nil
  then show ?case by simp
next
  case (Cons c cs)
  show ?case
  proof (cases "prefix pat (c # cs)")
    case True
    then have r: "r = drop (length pat) (c # cs)" using Cons.prems by simp
    from True obtain t where t: "c # cs = pat @ t" by (auto simp: prefix_def)
    have "\<not> sublist pat (butlast pat)"
    proof
      assume "sublist pat (butlast pat)"
      then have "length pat \<le> length (butlast pat)" by (rule sublist_length_le)
      then have "length pat \<le> length pat - 1" by (simp only: length_butlast)
      moreover have "length pat \<noteq> 0" using Cons.prems(1) by simp
      ultimately show False by arith
    qed
    then show ?thesis using t r by (intro exI[of _ "[]"]) simp
  next
    case False
    then have "find_after pat cs = Some r" using Cons.prems by simp
    then obtain pre where pre: "cs = pre @ pat @ r" "\<not> sublist pat (pre @ butlast pat)"
      using Cons.IH Cons.prems(1) by blast
    have "\<not> prefix pat (c # pre @ butlast pat)"
    proof
      assume "prefix pat (c # pre @ butlast pat)"
      moreover have "prefix (c # pre @ butlast pat) (c # cs)"
        using pre(1) Cons.prems(1)
        by (metis append.assoc append_butlast_last_id prefixI prefix_Cons same_prefix_prefix)
      ultimately show False using False prefix_order.trans by blast
    qed
    then have "\<not> sublist pat ((c # pre) @ butlast pat)"
      using pre(2) Cons.prems(1) by (simp add: sublist_Cons_right)
    then show ?thesis using pre(1) by (intro exI[of _ "c # pre"]) simp
  qed
qed

lemma lazy_until_Some:
  "lazy_until P s = Some g \<Longrightarrow>
     \<exists>rest. s = g @ rest \<and> P rest \<and> (\<forall>k<length g. \<not> P (drop k s))"
proof (induction s arbitrary: g)
  case Nil
  then show ?case by (simp split: if_splits)
next
  case (Cons c cs)
  show ?case
  proof (cases "P (c # cs)")
    case True
    then show ?thesis using Cons.prems by simp
  next
    case False
    then obtain g' where g': "lazy_until P cs = Some g'" "g = c # g'"
      using Cons.prems by auto
    then obtain rest where rest: "cs = g' @ rest" "P rest" "\<forall>k<length g'. \<not> P (drop k cs)"
      using Cons.IH by blast
    have "\<not> P (drop k (c # cs))" if "k < length g" for k
      using that False rest(3) g'(2) by (cases k) auto
    then show ?thesis using rest(1,2) g'(2) by auto
  qed
qed

lemma lstrip_decomp: "\<exists>w. s = w @ lstrip s \<and> list_all isspace w"
  by (rule exI[of _ "takeWhile isspace s"])
     (simp add: lstrip_def list_all_iff, meson set_takeWhileD)

lemma lstrip_fence: "lstrip (fence @ t) = fence @ t"
  by (simp add: lstrip_def fence_def isspace_def)

lemma json_block_pattern_first_block:
  assumes "json_block_pattern resp = Some g"
  shows "\<exists>pre w1 w2 post. resp = pre @ fence @ ''json'' @ w1 @ g @ w2 @ fence @ post \<and>
           \<not> sublist (fence @ ''json'') (pre @ fence @ ''jso'') \<and>
           list_all isspace w1 \<and> list_all isspace w2 \<and> \<not> sublist fence g"
proof -
  from assms obtain r where r: "find_after (fence @ ''json'') resp = Some r"
    and g: "lazy_until (\<lambda>t. prefix fence (lstrip t)) (lstrip r) = Some g"
    by (auto simp: json_block_pattern_def split: option.splits)
  from find_after_Some[OF _ r] obtain pre where
    pre: "resp = pre @ (fence @ ''json'') @ r" "\<not> sublist (fence @ ''json'') (pre @ butlast (fence @ ''json''))"
    by (auto simp: fence_def)
  obtain w1 where w1: "r = w1 @ lstrip r" "list_all isspace w1"
    using lstrip_decomp by blast
  from lazy_until_Some[OF g] obtain rest where
    rest: "lstrip r = g @ rest" "prefix fence (lstrip rest)"
      "\<forall>k<length g. \<not> prefix fence (lstrip (drop k (lstrip r)))"
    by blast
  obtain w2 where w2: "rest = w2 @ lstrip rest" "list_all isspace w2"
    using lstrip_decomp by blast
  from rest(2) obtain post where post: "lstrip rest = fence @ post"
    by (auto simp: prefix_def)
  have nf: "\<not> sublist fence g"
  proof
    assume "sublist fence g"
    then obtain a b where ab: "g = a @ fence @ b" by (auto simp: sublist_def)
    then have "drop (length a) (lstrip r) = fence @ b @ rest" using rest(1) by simp
    then have "prefix fence (lstrip (drop (length a) (lstrip r)))"
      by (simp add: lstrip_fence)
    moreover have "length a < length g" using ab by (simp add: fence_def)
    ultimately show False using rest(3) by blast
  qed
  have "resp = pre @ fence @ ''json'' @ w1 @ g @ w2 @ fence @ post"
    using pre(1) w1(1) rest(1) w2(1) post by (metis append.assoc)
  moreover have "butlast (fence @ ''json'') = fence @ ''jso''" by (simp add: fence_def)
  ultimately show ?thesis using pre(2) w1(2) w2(2) nf by auto
qed

lemma two_blocks_candidates:
  "candidates two_blocks_reply = [strip two_blocks_reply, ''{bad'', two_blocks_span]"
  by code_simp

text \<open>
  C10. The tagged-fence strategy looks at one block only: the interior it decodes starts
  after the leftmost \<open>```json\<close> in the reply and ends before the first fence that follows.
  When the decoder rejects that interior the extractor makes no further attempt on tagged
  blocks and goes on to the brace-spanning strategy, then to the outer-fence one. On a
  reply whose first block is malformed and whose second block is well formed, the
  brace-spanning candidate runs from the first block into the second, and the extractor
  returns no plan without ever trying the second block's interior.
\<close>

theorem tagged_block_first_only:
  "(json_block_pattern resp = Some g \<longrightarrow>
      (\<exists>pre w1 w2 post. resp = pre @ fence @ ''json'' @ w1 @ g @ w2 @ fence @ post \<and>
         \<not> sublist (fence @ ''json'') (pre @ fence @ ''jso'') \<and>
         list_all isspace w1 \<and> list_all isspace w2 \<and> \<not> sublist fence g)) \<and>
   (json_block_pattern resp = Some g \<and> loads (strip resp) = JSONDecodeError \<and>
    loads (strip g) = JSONDecodeError \<longrightarrow>
      plan (parse_analysis_response loads resp) =
        fst (cascade loads (List.map_filter (\<lambda>s. s resp) [strategy3, strategy4])) \<and>
      attempts (parse_analysis_response loads resp) =
        [strip resp, strip g] @
        snd (cascade loads (List.map_filter (\<lambda>s. s resp) [strategy3, strategy4]))) \<and>
   (loads (strip two_blocks_reply) = JSONDecodeError \<and> loads ''{bad'' = JSONDecodeError \<and>
    loads two_blocks_span = JSONDecodeError \<longrightarrow>
      plan (parse_analysis_response loads two_blocks_reply) = None \<and>
      attempts (parse_analysis_response loads two_blocks_reply) =
        [strip two_blocks_reply, ''{bad'', two_blocks_span])"
proof (intro conjI impI)
  assume "json_block_pattern resp = Some g"
  then show "\<exists>pre w1 w2 post. resp = pre @ fence @ ''json'' @ w1 @ g @ w2 @ fence @ post \<and>
         \<not> sublist (fence @ ''json'') (pre @ fence @ ''jso'') \<and>
         list_all isspace w1 \<and> list_all isspace w2 \<and> \<not> sublist fence g"
    by (rule json_block_pattern_first_block)
next
  assume a: "json_block_pattern resp = Some g \<and> loads (strip resp) = JSONDecodeError \<and>
    loads (strip g) = JSONDecodeError"
  have c: "candidates resp =
      strip resp # strip g # List.map_filter (\<lambda>s. s resp) [strategy3, strategy4]"
    using a by (simp add: candidates_def strategy1_def strategy2_def List.map_filter_simps)
  show "plan (parse_analysis_response loads resp) =
        fst (cascade loads (List.map_filter (\<lambda>s. s resp) [strategy3, strategy4]))"
    using parse_analysis_response_cascade[of loads resp] a
    by (simp add: c split: prod.split)
  show "attempts (parse_analysis_response loads resp) =
        [strip resp, strip g] @
        snd (cascade loads (List.map_filter (\<lambda>s. s resp) [strategy3, strategy4]))"
    using parse_analysis_response_cascade[of loads resp] a
    by (simp add: c split: prod.split)
next
  assume a: "loads (strip two_blocks_reply) = JSONDecodeError \<and> loads ''{bad'' = JSONDecodeError \<and>
    loads two_blocks_span = JSONDecodeError"
  show "plan (parse_analysis_response loads two_blocks_reply) = None"
    using parse_analysis_response_cascade[of loads two_blocks_reply] a
    by (simp add: two_blocks_candidates)
  show "attempts (parse_analysis_response loads two_blocks_reply) =
        [strip two_blocks_reply, ''{bad'', two_blocks_span]"
    using parse_analysis_response_cascade[of loads two_blocks_reply] a
    by (simp add: two_blocks_candidates)
qed

theorem tagged_block_first_only_witness:
  "json_block_pattern two_blocks_reply = Some ''{bad'' \<and>
   json_loads (strip two_blocks_reply) = JSONDecodeError \<and>
   json_loads ''{bad'' = JSONDecodeError \<and>
   json_loads two_blocks_span = JSONDecodeError \<and>
   json_loads ''{\"a\":1}'' = Decoded (JObject [(''a'', JInt 1)]) \<and>
   plan (parse_analysis_response json_loads two_blocks_reply) = None \<and>
   attempts (parse_analysis_response json_loads two_blocks_reply) =
     [strip two_blocks_reply, ''{bad'', two_blocks_span]"
proof -
  have b: "json_block_pattern two_blocks_reply = Some ''{bad''" by code_simp
  have h1: "json_loads (strip two_blocks_reply) = JSONDecodeError" by code_simp
  have h2: "json_loads ''{bad'' = JSONDecodeError" by code_simp
  have h3: "json_loads two_blocks_span = JSONDecodeError" by code_simp
  have h4: "json_loads ''{\"a\":1}'' = Decoded (JObject [(''a'', JInt 1)])" by code_simp
  show ?thesis
    using tagged_block_first_only[of two_blocks_reply "''{bad''" json_loads] b h1 h2 h3 h4 by blast
qed

subsection \<open>Fenced presentations of a serialised value\<close>

lemma rstrip_prefix: "prefix (rstrip g) g"
proof -
  have "rev g = takeWhile isspace (rev g) @ dropWhile isspace (rev g)" by simp
  then have "g = rev (dropWhile isspace (rev g)) @ rev (takeWhile isspace (rev g))"
    by (metis rev_append rev_rev_ident)
  then show ?thesis by (metis prefixI rstrip_def)
qed

lemma strip_prefix:
  assumes "g = [] \<or> \<not> isspace (hd g)"
  shows "prefix (strip g) g"
proof -
  have "lstrip g = g"
    using assms by (cases g) (simp_all add: lstrip_def)
  then show ?thesis
    using rstrip_prefix[of g] by (simp add: strip_def)
qed

lemma strip_id:
  assumes "s \<noteq> []" "\<not> isspace (hd s)" "\<not> isspace (last s)"
  shows "strip s = s"
proof -
  have l: "lstrip s = s"
    using assms(1,2) by (cases s) (simp_all add: lstrip_def)
  have r: "rstrip s = s"
    using assms(1,3) by (cases s rule: rev_cases) (simp_all add: rstrip_def)
  show ?thesis by (simp add: strip_def l r)
qed

lemma lazy_until_append:
  "P t \<Longrightarrow> \<exists>g. lazy_until P (s @ t) = Some g \<and> prefix g s"
proof (induction s)
  case Nil
  then show ?case by (cases t) simp_all
next
  case (Cons c cs)
  then show ?case by (cases "P (c # cs @ t)") auto
qed

lemma prefix_sep: "prefix pat (u @ c # b) \<Longrightarrow> c \<notin> set pat \<Longrightarrow> prefix pat u"
  by (auto simp: prefix_append prefix_Cons)

lemma find_after_sep:
  "pat \<noteq> [] \<Longrightarrow> c \<notin> set pat \<Longrightarrow> find_after pat a = None \<Longrightarrow>
     find_after pat (a @ c # b) = find_after pat b"
proof (induction a)
  case Nil
  then show ?case by (cases pat) (auto simp: prefix_Cons)
next
  case (Cons x a)
  from Cons.prems(3) have np: "\<not> prefix pat (x # a)" and fa: "find_after pat a = None"
    by (auto split: if_splits)
  have "\<not> prefix pat ((x # a) @ c # b)"
    using np prefix_sep[of pat "x # a" c b] Cons.prems(2) by blast
  then show ?case using Cons.IH[OF Cons.prems(1,2) fa] by simp
qed

lemma json_pattern_wrapped:
  assumes "s \<noteq> []" "hd s = CHR ''{''" "last s = CHR ''}''"
    and "CHR ''{'' \<notin> set a" "CHR ''}'' \<notin> set b"
  shows "json_pattern (a @ s @ b) = Some s"
proof -
  have 1: "dropWhile (\<lambda>c. c \<noteq> CHR ''{'') (a @ s @ b) = s @ b"
    using assms(1,2,4) by (cases s) (auto simp: dropWhile_append)
  have 2: "dropWhile (\<lambda>c. c \<noteq> CHR ''}'') (rev b @ rev s) = rev s"
    using assms(1,3,5) by (cases s rule: rev_cases) (auto simp: dropWhile_append)
  have "rev (dropWhile (\<lambda>c. c \<noteq> CHR ''}'') (rev (s @ b))) = s"
    using 2 by (simp only: rev_append rev_rev_ident)
  then show ?thesis
    unfolding json_pattern_def Let_def 1 using assms(1) by (simp only: if_False option.inject)
qed

lemma find_after_prefix: "pat \<noteq> [] \<Longrightarrow> find_after pat (pat @ r) = Some r"
  by (cases pat) simp_all

lemma strip_tagged_fence: "strip (tagged_fence s) = tagged_fence s"
  by (rule strip_id) (simp_all add: tagged_fence_def fence_def isspace_def)

lemma strip_untagged_fence: "strip (untagged_fence s) = untagged_fence s"
  by (rule strip_id) (simp_all add: untagged_fence_def fence_def isspace_def)

lemma json_pattern_frame:
  assumes "CHR ''{'' \<notin> set a" "CHR ''{'' \<notin> set b" "CHR ''}'' \<notin> set b"
  shows "json_pattern (a @ s @ b) = json_pattern s"
proof (cases "CHR ''{'' \<in> set s")
  case True
  then have r: "dropWhile (\<lambda>c. c \<noteq> CHR ''{'') (a @ s @ b) = dropWhile (\<lambda>c. c \<noteq> CHR ''{'') s @ b"
    using assms(1) by (auto simp: dropWhile_append)
  have "dropWhile (\<lambda>c. c \<noteq> CHR ''}'') (rev b @ t) = dropWhile (\<lambda>c. c \<noteq> CHR ''}'') t" for t
    using assms(3) by (auto simp: dropWhile_append)
  then show ?thesis
    unfolding json_pattern_def Let_def r by (simp only: rev_append)
next
  case False
  then have e: "dropWhile (\<lambda>c. c \<noteq> CHR ''{'') (a @ s @ b) = []"
    "dropWhile (\<lambda>c. c \<noteq> CHR ''{'') s = []"
    using assms(1,2) by (auto simp: dropWhile_append)
  show ?thesis
    unfolding json_pattern_def Let_def e by (rule refl)
qed

lemma json_pattern_tagged_fence: "json_pattern (tagged_fence s) = json_pattern s"
  using json_pattern_frame[of "fence @ ''json\<newline>''" "''\<newline>'' @ fence" s]
  by (simp add: tagged_fence_def fence_def)

lemma json_pattern_untagged_fence: "json_pattern (untagged_fence s) = json_pattern s"
  using json_pattern_frame[of "fence @ ''\<newline>''" "''\<newline>'' @ fence" s]
  by (simp add: untagged_fence_def fence_def)

lemma remove_outer_markers_tagged_fence:
  assumes "s \<noteq> []" "\<not> isspace (hd s)"
  shows "remove_outer_markers (tagged_fence s) = s @ ''\<newline>''"
  using assms
  by (cases s) (simp_all add: remove_outer_markers_def tagged_fence_def fence_def lstrip_def isspace_def)

lemma remove_outer_markers_untagged_fence:
  assumes "s \<noteq> []" "\<not> isspace (hd s)"
  shows "remove_outer_markers (untagged_fence s) = s @ ''\<newline>''"
  using assms
  by (cases s) (simp_all add: remove_outer_markers_def untagged_fence_def fence_def lstrip_def isspace_def)

lemma lazy_until_exact:
  "P rest \<Longrightarrow> (\<forall>k<length g. \<not> P (drop k g @ rest)) \<Longrightarrow> lazy_until P (g @ rest) = Some g"
proof (induction g)
  case Nil
  then show ?case by (cases rest) simp_all
next
  case (Cons c cs)
  have 0: "\<not> P ((c # cs) @ rest)"
    using Cons.prems(2) by (metis drop0 length_greater_0_conv list.distinct(1))
  have "\<forall>k<length cs. \<not> P (drop k cs @ rest)"
  proof (intro allI impI)
    fix k assume "k < length cs"
    then have "\<not> P (drop (Suc k) (c # cs) @ rest)"
      using Cons.prems(2) by (metis Suc_less_eq length_Cons)
    then show "\<not> P (drop k cs @ rest)" by simp
  qed
  then have "lazy_until P (cs @ rest) = Some cs"
    using Cons.IH Cons.prems(1) by blast
  then show ?case using 0 by simp
qed

lemma fence_after_text:
  assumes "d \<noteq> []" "\<not> isspace (last d)" "prefix fence (lstrip (d @ CHR ''\<newline>'' # r))"
  shows "\<exists>p q. d = p @ fence @ q"
proof -
  have ex: "\<exists>c\<in>set d. \<not> isspace c"
    using assms(1,2) last_in_set by blast
  then have l: "lstrip (d @ CHR ''\<newline>'' # r) = lstrip d @ CHR ''\<newline>'' # r"
    by (auto simp: lstrip_def dropWhile_append)
  have ne: "lstrip d \<noteq> []"
    using ex by (auto simp: lstrip_def dropWhile_eq_Nil_conv)
  obtain p where p: "d = p @ lstrip d"
    using lstrip_decomp[of d] by blast
  have "prefix fence (lstrip d)"
  proof (cases "lstrip d")
    case Nil
    then show ?thesis using ne by simp
  next
    case (Cons a x)
    note c1 = Cons
    show ?thesis
    proof (cases x)
      case Nil
      then show ?thesis using assms(3) c1 unfolding l by (simp add: fence_def)
    next
      case (Cons b y)
      note c2 = Cons
      show ?thesis
      proof (cases y)
        case Nil
        then show ?thesis using assms(3) c1 c2 unfolding l by (simp add: fence_def)
      next
        case (Cons c z)
        then show ?thesis using assms(3) c1 c2 unfolding l by (auto simp: fence_def)
      qed
    qed
  qed
  then obtain q where "lstrip d = fence @ q" by (auto simp: prefix_def)
  then show ?thesis using p by metis
qed

lemma json_block_pattern_tagged_fence:
  assumes "s \<noteq> []" "\<not> isspace (hd s)" "\<not> isspace (last s)"
  shows "\<exists>g. json_block_pattern (tagged_fence s) = Some g \<and> prefix (strip g) s \<and>
           (\<not> sublist fence s \<longrightarrow> strip g = s)"
proof -
  let ?P = "\<lambda>t. prefix fence (lstrip t)"
  have f: "find_after (fence @ ''json'') (tagged_fence s) = Some (''\<newline>'' @ s @ ''\<newline>'' @ fence)"
    using find_after_prefix[of "fence @ ''json''" "''\<newline>'' @ s @ ''\<newline>'' @ fence"]
    by (simp add: tagged_fence_def fence_def)
  have l: "lstrip (''\<newline>'' @ s @ ''\<newline>'' @ fence) = s @ (''\<newline>'' @ fence)"
    using assms(1,2) by (cases s) (simp_all add: lstrip_def isspace_def)
  have P: "?P (''\<newline>'' @ fence)"
    by (simp add: lstrip_def isspace_def fence_def)
  then obtain g where g: "lazy_until ?P (s @ (''\<newline>'' @ fence)) = Some g" "prefix g s"
    using lazy_until_append[of ?P "''\<newline>'' @ fence" s] by blast
  have "g = [] \<or> \<not> isspace (hd g)"
    using g(2) assms(1,2) by (cases g; cases s) auto
  then have "prefix (strip g) g" by (rule strip_prefix)
  then have 1: "prefix (strip g) s" using g(2) by (rule prefix_order.trans)
  have b: "json_block_pattern (tagged_fence s) = Some g"
    using f l g(1) by (simp add: json_block_pattern_def)
  have 2: "strip g = s" if nf: "\<not> sublist fence s"
  proof -
    have "\<forall>k<length s. \<not> ?P (drop k s @ (''\<newline>'' @ fence))"
    proof (intro allI impI notI)
      fix k assume k: "k < length s" and pf: "?P (drop k s @ (''\<newline>'' @ fence))"
      have "drop k s \<noteq> []" using k by simp
      moreover have "\<not> isspace (last (drop k s))" using k assms(3) by simp
      ultimately obtain p q where "drop k s = p @ fence @ q"
        using fence_after_text[of "drop k s" fence] pf by auto
      then have "s = (take k s @ p) @ fence @ q"
        by (metis append.assoc append_take_drop_id)
      then show False using nf unfolding sublist_def by blast
    qed
    then have "lazy_until ?P (s @ (''\<newline>'' @ fence)) = Some s"
      using lazy_until_exact[of ?P "''\<newline>'' @ fence" s] P by blast
    then have "g = s" using g(1) by simp
    then show ?thesis using strip_id[OF assms] by simp
  qed
  show ?thesis using b 1 2 by blast
qed

lemma plan_direct:
  "loads (strip resp) = Decoded v \<Longrightarrow> plan (parse_analysis_response loads resp) = Some v"
  by (simp add: parse_analysis_response_def first_attempt_def)

lemma plan_final_attempt:
  assumes "prefix fence (strip resp)" "suffix fence (strip resp)"
    and "loads (remove_outer_markers (strip resp)) = Decoded v"
  shows "plan (final_attempt loads resp tr) = Some v"
  using assms by (simp add: final_attempt_def)

lemma plan_third_attempt:
  assumes "\<forall>s'. json_pattern resp = Some s' \<longrightarrow> loads s' = Decoded v \<or> loads s' = JSONDecodeError"
    and "\<And>tr'. plan (final_attempt loads resp tr') = Some v"
  shows "plan (third_attempt loads resp tr) = Some v"
proof (cases "json_pattern resp")
  case None
  then show ?thesis using assms(2) by (simp add: third_attempt_def)
next
  case (Some s')
  then have "loads s' = Decoded v \<or> loads s' = JSONDecodeError" using assms(1) by blast
  then show ?thesis using Some assms(2) by (auto simp: third_attempt_def)
qed

lemma plan_second_attempt:
  assumes "\<forall>g. json_block_pattern resp = Some g \<longrightarrow>
             loads (strip g) = Decoded v \<or> loads (strip g) = JSONDecodeError"
    and "\<And>tr'. plan (third_attempt loads resp tr') = Some v"
  shows "plan (second_attempt loads resp tr) = Some v"
proof (cases "json_block_pattern resp")
  case None
  then show ?thesis using assms(2) by (simp add: second_attempt_def)
next
  case (Some g)
  then have "loads (strip g) = Decoded v \<or> loads (strip g) = JSONDecodeError"
    using assms(1) by blast
  then show ?thesis using Some assms(2) by (auto simp: second_attempt_def Let_def)
qed

lemma plan_fenced:
  assumes "loads (strip resp) = JSONDecodeError"
    and "\<forall>g. json_block_pattern resp = Some g \<longrightarrow>
             loads (strip g) = Decoded v \<or> loads (strip g) = JSONDecodeError"
    and "\<forall>s'. json_pattern resp = Some s' \<longrightarrow> loads s' = Decoded v \<or> loads s' = JSONDecodeError"
    and "prefix fence (strip resp)" "suffix fence (strip resp)"
    and "loads (remove_outer_markers (strip resp)) = Decoded v"
  shows "plan (parse_analysis_response loads resp) = Some v"
proof -
  have f: "plan (final_attempt loads resp tr') = Some v" for tr'
    using plan_final_attempt[of resp loads v tr'] assms(4,5,6) by blast
  have t: "plan (third_attempt loads resp tr') = Some v" for tr'
    using plan_third_attempt[of resp loads v tr'] assms(3) f by blast
  have "plan (second_attempt loads resp [strip resp]) = Some v"
    using plan_second_attempt[of resp loads v "[strip resp]"] assms(2) t by blast
  then show ?thesis
    using assms(1) by (simp add: parse_analysis_response_def first_attempt_def Let_def)
qed

text \<open>
  C8, as amended. Let \<open>s\<close> be the serialised form of a value, without surrounding white
  space, that the decoder decodes to \<open>v\<close>, also when a line break follows it. The extractor
  returns \<open>v\<close> for the bare text, for the text inside a json-tagged fence and for the text
  inside an untagged fence, provided that no strategy which runs before the outer-fence one
  finds inside \<open>s\<close> a fragment that decodes to another value: the text that
  \<open>json_pattern\<close> cuts out of \<open>s\<close> from its first opening brace to its last closing brace,
  if there is one, decodes to \<open>v\<close> or is rejected (so for every object, where that text is
  \<open>s\<close>, and for every value without braces, such as \<open>[1,2]\<close>, \<open>"x"\<close> or \<open>7\<close>), and
  so does the block that \<open>json_block_pattern\<close> finds in the untagged presentation, if there
  is one (there is none when \<open>s\<close> does not contain the tagged opener). The decoder is
  assumed to reject every text that starts with a fence and, when \<open>s\<close> contains a fence, the
  proper prefixes of \<open>s\<close>. For an array that holds an object, or an object with a tagged block
  inside one of its strings, the untagged fence gives a different plan:
  \<open>fence_wrapping_counterexample\<close>.
\<close>

theorem fence_wrapping_value:
  assumes "loads s = Decoded v" and "loads (s @ ''\<newline>'') = Decoded v"
    and "s \<noteq> []" and "\<not> isspace (hd s)" and "\<not> isspace (last s)"
    and "\<forall>t. prefix fence t \<longrightarrow> loads t = JSONDecodeError"
    and "\<not> sublist fence s \<or> (\<forall>t. strict_prefix t s \<longrightarrow> loads t = JSONDecodeError)"
    and "\<forall>g. json_block_pattern (untagged_fence s) = Some g \<longrightarrow>
           loads (strip g) = Decoded v \<or> loads (strip g) = JSONDecodeError"
    and "\<forall>s'. json_pattern s = Some s' \<longrightarrow> loads s' = Decoded v \<or> loads s' = JSONDecodeError"
  shows "plan (parse_analysis_response loads s) = Some v \<and>
    plan (parse_analysis_response loads (tagged_fence s)) = Some v \<and>
    plan (parse_analysis_response loads (untagged_fence s)) = Some v"
proof (intro conjI)
  have "strip s = s"
    using assms(3,4,5) by (rule strip_id)
  then show "plan (parse_analysis_response loads s) = Some v"
    using assms(1) by (simp add: plan_direct)
next
  have pf: "prefix fence (tagged_fence s)" and sf: "suffix fence (tagged_fence s)"
    by (simp_all add: tagged_fence_def suffix_def)
  have r: "loads (strip (tagged_fence s)) = JSONDecodeError"
    using assms(6) pf by (simp only: strip_tagged_fence)
  obtain g where g: "json_block_pattern (tagged_fence s) = Some g" "prefix (strip g) s"
      "\<not> sublist fence s \<longrightarrow> strip g = s"
    using json_block_pattern_tagged_fence[OF assms(3,4,5)] by blast
  have "loads (strip g) = Decoded v \<or> loads (strip g) = JSONDecodeError"
  proof (cases "strip g = s")
    case True
    then show ?thesis using assms(1) by simp
  next
    case False
    then have "strict_prefix (strip g) s" using g(2) by (simp add: strict_prefix_def)
    then show ?thesis using assms(7) g(3) False by blast
  qed
  then have b: "\<forall>g'. json_block_pattern (tagged_fence s) = Some g' \<longrightarrow>
      loads (strip g') = Decoded v \<or> loads (strip g') = JSONDecodeError"
    using g(1) by simp
  have p: "\<forall>s'. json_pattern (tagged_fence s) = Some s' \<longrightarrow>
      loads s' = Decoded v \<or> loads s' = JSONDecodeError"
    using assms(9) by (simp only: json_pattern_tagged_fence)
  have m: "loads (remove_outer_markers (strip (tagged_fence s))) = Decoded v"
    using assms(2) by (simp only: strip_tagged_fence remove_outer_markers_tagged_fence[OF assms(3,4)])
  have pf': "prefix fence (strip (tagged_fence s))" and sf': "suffix fence (strip (tagged_fence s))"
    using pf sf by (simp_all only: strip_tagged_fence)
  show "plan (parse_analysis_response loads (tagged_fence s)) = Some v"
    by (rule plan_fenced[OF r b p pf' sf' m])
next
  have pf: "prefix fence (untagged_fence s)" and sf: "suffix fence (untagged_fence s)"
    by (simp_all add: untagged_fence_def suffix_def)
  have r: "loads (strip (untagged_fence s)) = JSONDecodeError"
    using assms(6) pf by (simp only: strip_untagged_fence)
  have p: "\<forall>s'. json_pattern (untagged_fence s) = Some s' \<longrightarrow>
      loads s' = Decoded v \<or> loads s' = JSONDecodeError"
    using assms(9) by (simp only: json_pattern_untagged_fence)
  have m: "loads (remove_outer_markers (strip (untagged_fence s))) = Decoded v"
    using assms(2) by (simp only: strip_untagged_fence remove_outer_markers_untagged_fence[OF assms(3,4)])
  have pf': "prefix fence (strip (untagged_fence s))" and sf': "suffix fence (strip (untagged_fence s))"
    using pf sf by (simp_all only: strip_untagged_fence)
  show "plan (parse_analysis_response loads (untagged_fence s)) = Some v"
    by (rule plan_fenced[OF r assms(8) p pf' sf' m])
qed

lemma json_loads_rejects_fence: "prefix fence t \<Longrightarrow> json_loads t = JSONDecodeError"
  by (auto simp: prefix_def fence_def json_loads_def skip_ws_def json_ws_def scan_int_def
      scan_digits_def is_digit_def)

theorem fence_wrapping_value_witness:
  "json_loads ''{\"a\":1}'' = Decoded (JObject [(''a'', JInt 1)]) \<and>
   json_pattern ''{\"a\":1}'' = Some ''{\"a\":1}'' \<and>
   plan (parse_analysis_response json_loads ''{\"a\":1}'') = Some (JObject [(''a'', JInt 1)]) \<and>
   plan (parse_analysis_response json_loads (tagged_fence ''{\"a\":1}'')) =
     Some (JObject [(''a'', JInt 1)]) \<and>
   plan (parse_analysis_response json_loads (untagged_fence ''{\"a\":1}'')) =
     Some (JObject [(''a'', JInt 1)]) \<and>
   json_loads scalar_array_value = Decoded (JArray [JInt 1, JInt 2]) \<and>
   json_pattern scalar_array_value = None \<and>
   plan (parse_analysis_response json_loads scalar_array_value) = Some (JArray [JInt 1, JInt 2]) \<and>
   plan (parse_analysis_response json_loads (tagged_fence scalar_array_value)) =
     Some (JArray [JInt 1, JInt 2]) \<and>
   plan (parse_analysis_response json_loads (untagged_fence scalar_array_value)) =
     Some (JArray [JInt 1, JInt 2]) \<and>
   attempts (parse_analysis_response json_loads (untagged_fence scalar_array_value)) =
     [untagged_fence scalar_array_value, scalar_array_value @ ''\<newline>'']"
proof -
  have f: "\<forall>t. prefix fence t \<longrightarrow> json_loads t = JSONDecodeError"
    using json_loads_rejects_fence by blast
  have o1: "json_loads ''{\"a\":1}'' = Decoded (JObject [(''a'', JInt 1)])" by code_simp
  have o2: "json_loads (''{\"a\":1}'' @ ''\<newline>'') = Decoded (JObject [(''a'', JInt 1)])"
    by code_simp
  have o3: "''{\"a\":1}'' \<noteq> []" "\<not> isspace (hd ''{\"a\":1}'')" "\<not> isspace (last ''{\"a\":1}'')"
    by (simp_all add: isspace_def)
  have o4: "\<not> sublist fence ''{\"a\":1}''" by code_simp
  have o5: "json_block_pattern (untagged_fence ''{\"a\":1}'') = None" by code_simp
  have o6: "json_pattern ''{\"a\":1}'' = Some ''{\"a\":1}''" by code_simp
  have o: "plan (parse_analysis_response json_loads ''{\"a\":1}'') = Some (JObject [(''a'', JInt 1)]) \<and>
    plan (parse_analysis_response json_loads (tagged_fence ''{\"a\":1}'')) =
      Some (JObject [(''a'', JInt 1)]) \<and>
    plan (parse_analysis_response json_loads (untagged_fence ''{\"a\":1}'')) =
      Some (JObject [(''a'', JInt 1)])"
    using fence_wrapping_value[of json_loads "''{\"a\":1}''" "JObject [(''a'', JInt 1)]"]
      f o1 o2 o3 o4 o5 o6 by simp
  have a1: "json_loads scalar_array_value = Decoded (JArray [JInt 1, JInt 2])" by code_simp
  have a2: "json_loads (scalar_array_value @ ''\<newline>'') = Decoded (JArray [JInt 1, JInt 2])"
    by code_simp
  have a3: "scalar_array_value \<noteq> []" "\<not> isspace (hd scalar_array_value)"
    "\<not> isspace (last scalar_array_value)"
    by (simp_all add: isspace_def scalar_array_value_def)
  have a4: "\<not> sublist fence scalar_array_value" by code_simp
  have a5: "json_block_pattern (untagged_fence scalar_array_value) = None" by code_simp
  have a6: "json_pattern scalar_array_value = None" by code_simp
  have a: "plan (parse_analysis_response json_loads scalar_array_value) =
      Some (JArray [JInt 1, JInt 2]) \<and>
    plan (parse_analysis_response json_loads (tagged_fence scalar_array_value)) =
      Some (JArray [JInt 1, JInt 2]) \<and>
    plan (parse_analysis_response json_loads (untagged_fence scalar_array_value)) =
      Some (JArray [JInt 1, JInt 2])"
    using fence_wrapping_value[of json_loads scalar_array_value "JArray [JInt 1, JInt 2]"]
      f a1 a2 a3 a4 a5 a6 by simp
  have t: "attempts (parse_analysis_response json_loads (untagged_fence scalar_array_value)) =
     [untagged_fence scalar_array_value, scalar_array_value @ ''\<newline>'']"
    by code_simp
  show ?thesis
    using o a o1 o6 a1 a6 t by simp
qed

theorem fence_wrapping_counterexample:
  "json_loads array_value = Decoded (JArray [JObject [(''a'', JInt 1)]]) \<and>
   plan (parse_analysis_response json_loads array_value) =
     Some (JArray [JObject [(''a'', JInt 1)]]) \<and>
   plan (parse_analysis_response json_loads (untagged_fence array_value)) =
     Some (JObject [(''a'', JInt 1)]) \<and>
   plan (parse_analysis_response json_loads (untagged_fence array_value)) \<noteq>
     plan (parse_analysis_response json_loads array_value) \<and>
   json_loads nested_block_value = Decoded (JObject [(''a'', JString ''```json 1 ```'')]) \<and>
   plan (parse_analysis_response json_loads nested_block_value) =
     Some (JObject [(''a'', JString ''```json 1 ```'')]) \<and>
   plan (parse_analysis_response json_loads (untagged_fence nested_block_value)) =
     Some (JInt 1) \<and>
   plan (parse_analysis_response json_loads (untagged_fence nested_block_value)) \<noteq>
     plan (parse_analysis_response json_loads nested_block_value)"
proof -
  have a0: "json_loads array_value = Decoded (JArray [JObject [(''a'', JInt 1)]])"
    by code_simp
  have a1: "plan (parse_analysis_response json_loads array_value) =
     Some (JArray [JObject [(''a'', JInt 1)]])"
    by code_simp
  have a2: "plan (parse_analysis_response json_loads (untagged_fence array_value)) =
     Some (JObject [(''a'', JInt 1)])"
    by code_simp
  have n0: "json_loads nested_block_value = Decoded (JObject [(''a'', JString ''```json 1 ```'')])"
    by code_simp
  have n1: "plan (parse_analysis_response json_loads nested_block_value) =
     Some (JObject [(''a'', JString ''```json 1 ```'')])"
    by code_simp
  have n2: "plan (parse_analysis_response json_loads (untagged_fence nested_block_value)) =
     Some (JInt 1)"
    by code_simp
  show ?thesis
    by (simp add: a0 a1 a2 n0 n1 n2)
qed

subsection \<open>The four strategies\<close>

lemma find_after_suffix:
  "pat \<noteq> [] \<Longrightarrow> \<exists>r'. find_after pat (pre @ pat @ r) = Some r' \<and> suffix r r'"
proof (induction pre)
  case Nil
  then show ?case using find_after_prefix[of pat r] by simp
next
  case (Cons c pre)
  show ?case
  proof (cases "prefix pat (c # pre @ pat @ r)")
    case True
    have "drop (length pat) ((c # pre @ pat) @ r) = drop (length pat) (c # pre @ pat) @ r"
      unfolding drop_append by simp
    then have "suffix r (drop (length pat) ((c # pre @ pat) @ r))"
      by (simp only: suffix_def) blast
    then have "suffix r (drop (length pat) (c # pre @ pat @ r))"
      by simp
    then show ?thesis using True by simp
  next
    case False
    then show ?thesis using Cons by simp
  qed
qed

lemma lstrip_keeps_fence: "\<exists>x. lstrip (a @ fence @ b) = x @ fence @ b"
proof (cases "\<forall>c\<in>set a. isspace c")
  case True
  then have "lstrip (a @ fence @ b) = lstrip (fence @ b)"
    by (simp add: lstrip_def dropWhile_append)
  then show ?thesis using lstrip_fence[of b] by (metis append_Nil)
next
  case False
  then have "lstrip (a @ fence @ b) = lstrip a @ fence @ b"
    by (auto simp: lstrip_def dropWhile_append)
  then show ?thesis by blast
qed

lemma json_block_pattern_complete:
  "json_block_pattern (pre @ fence @ ''json'' @ mid @ fence @ post) \<noteq> None"
proof -
  let ?P = "\<lambda>t. prefix fence (lstrip t)"
  obtain r' where r': "find_after (fence @ ''json'') (pre @ (fence @ ''json'') @ (mid @ fence @ post)) = Some r'"
    "suffix (mid @ fence @ post) r'"
    using find_after_suffix[of "fence @ ''json''" pre "mid @ fence @ post"] by (auto simp: fence_def)
  then obtain a where "r' = (a @ mid) @ fence @ post" by (auto simp: suffix_def)
  then obtain x where x: "lstrip r' = x @ (fence @ post)"
    using lstrip_keeps_fence[of "a @ mid" post] by auto
  have "?P (fence @ post)" by (simp add: lstrip_fence)
  then obtain g where "lazy_until ?P (x @ (fence @ post)) = Some g"
    using lazy_until_append[of ?P "fence @ post" x] by blast
  then show ?thesis using r'(1) x by (simp add: json_block_pattern_def)
qed

lemma json_block_pattern_shortest:
  assumes "json_block_pattern resp = Some g"
  shows "\<exists>pre w1 w2 post. resp = pre @ fence @ ''json'' @ w1 @ g @ w2 @ fence @ post \<and>
           \<not> sublist (fence @ ''json'') (pre @ fence @ ''jso'') \<and>
           list_all isspace w1 \<and> list_all isspace w2 \<and>
           (g = [] \<or> \<not> isspace (hd g) \<and> \<not> isspace (last g)) \<and>
           (\<forall>k<length g. \<not> prefix fence (lstrip (drop k g @ w2 @ fence @ post)))"
proof -
  from assms obtain r where r: "find_after (fence @ ''json'') resp = Some r"
    and g: "lazy_until (\<lambda>t. prefix fence (lstrip t)) (lstrip r) = Some g"
    by (auto simp: json_block_pattern_def split: option.splits)
  from find_after_Some[OF _ r] obtain pre where
    pre: "resp = pre @ (fence @ ''json'') @ r" "\<not> sublist (fence @ ''json'') (pre @ butlast (fence @ ''json''))"
    by (auto simp: fence_def)
  obtain w1 where w1: "r = w1 @ lstrip r" "list_all isspace w1"
    using lstrip_decomp by blast
  from lazy_until_Some[OF g] obtain rest where
    rest: "lstrip r = g @ rest" "prefix fence (lstrip rest)"
      "\<forall>k<length g. \<not> prefix fence (lstrip (drop k (lstrip r)))"
    by blast
  obtain w2 where w2: "rest = w2 @ lstrip rest" "list_all isspace w2"
    using lstrip_decomp by blast
  from rest(2) obtain post where post: "lstrip rest = fence @ post"
    by (auto simp: prefix_def)
  have rest': "rest = w2 @ fence @ post" using w2(1) post by simp
  have short: "\<forall>k<length g. \<not> prefix fence (lstrip (drop k g @ w2 @ fence @ post))"
    using rest(3) unfolding rest(1) rest' by simp
  have ends: "\<not> isspace (hd g) \<and> \<not> isspace (last g)" if ne: "g \<noteq> []"
  proof
    have "lstrip r \<noteq> []" using rest(1) ne by simp
    then have "\<not> isspace (hd (lstrip r))"
      unfolding lstrip_def by (rule hd_dropWhile)
    then show "\<not> isspace (hd g)" using rest(1) ne by simp
  next
    show "\<not> isspace (last g)"
    proof
      assume sp: "isspace (last g)"
      have d: "drop (length g - 1) g = [last g]"
        using ne by (cases g rule: rev_cases) simp_all
      have "lstrip ([last g] @ rest) = lstrip rest"
        using sp by (simp add: lstrip_def)
      then have "prefix fence (lstrip (drop (length g - 1) g @ w2 @ fence @ post))"
        using rest(2) d rest' by simp
      moreover have "length g - 1 < length g" using ne by simp
      ultimately show False using short by blast
    qed
  qed
  have "resp = pre @ fence @ ''json'' @ w1 @ g @ w2 @ fence @ post"
    using pre(1) w1(1) rest(1) w2(1) post by (metis append.assoc)
  moreover have "butlast (fence @ ''json'') = fence @ ''jso''" by (simp add: fence_def)
  ultimately show ?thesis using pre(2) w1(2) w2(2) short ends by auto
qed

lemma strip_block: "g = [] \<or> \<not> isspace (hd g) \<and> \<not> isspace (last g) \<Longrightarrow> strip g = g"
  using strip_id[of g] by (cases "g = []") (simp_all add: strip_def lstrip_def rstrip_def)

lemma json_pattern_Some:
  assumes "json_pattern resp = Some g"
  shows "\<exists>pre post. resp = pre @ g @ post \<and> g \<noteq> [] \<and> hd g = CHR ''{'' \<and> last g = CHR ''}'' \<and>
           CHR ''{'' \<notin> set pre \<and> CHR ''}'' \<notin> set post"
proof -
  let ?r = "dropWhile (\<lambda>c. c \<noteq> CHR ''{'') resp"
  let ?pre = "takeWhile (\<lambda>c. c \<noteq> CHR ''{'') resp"
  let ?d = "dropWhile (\<lambda>c. c \<noteq> CHR ''}'') (rev ?r)"
  let ?t = "takeWhile (\<lambda>c. c \<noteq> CHR ''}'') (rev ?r)"
  from assms have g: "g = rev ?d" and ne: "g \<noteq> []"
    by (auto simp: json_pattern_def Let_def split: if_splits)
  have "rev ?r = ?t @ ?d" by simp
  then have "?r = rev ?d @ rev ?t" by (metis rev_append rev_rev_ident)
  then have r: "?r = g @ rev ?t" using g by simp
  have "resp = ?pre @ ?r" by simp
  then have 1: "resp = ?pre @ g @ rev ?t" using r by simp
  have 2: "CHR ''{'' \<notin> set ?pre"
    using set_takeWhileD[of "CHR ''{''" "\<lambda>c. c \<noteq> CHR ''{''" resp] by blast
  have 3: "CHR ''}'' \<notin> set (rev ?t)"
    using set_takeWhileD[of "CHR ''}''" "\<lambda>c. c \<noteq> CHR ''}''" "rev ?r"] by auto
  have dne: "?d \<noteq> []" using g ne by simp
  then have "hd ?d = CHR ''}''" using hd_dropWhile[of "\<lambda>c. c \<noteq> CHR ''}''" "rev ?r"] by simp
  then have 4: "last g = CHR ''}''" using g dne by (simp add: last_rev)
  have rne: "?r \<noteq> []" using r ne by (metis Nil_is_append_conv)
  then have "hd ?r = CHR ''{''" using hd_dropWhile[of "\<lambda>c. c \<noteq> CHR ''{''" resp] by simp
  then have 5: "hd g = CHR ''{''" using r ne by (metis hd_append2)
  show ?thesis using 1 2 3 4 5 ne by blast
qed

lemma strategy4_fenced:
  assumes "strip resp = fence @ body @ fence"
  shows "strategy4 resp = Some (lstrip (if prefix ''json'' body then drop 4 body else body))"
proof -
  have pf: "prefix fence (strip resp)" "suffix fence (strip resp)"
    using assms by (simp_all add: suffix_def)
  have j: "prefix (fence @ ''json'') (fence @ body @ fence) = prefix ''json'' body"
    by (auto simp: fence_def prefix_append prefix_Cons)
  have "remove_outer_markers (fence @ body @ fence) =
      lstrip (if prefix ''json'' body then drop 4 body else body)"
  proof (cases "prefix ''json'' body")
    case True
    then obtain b where b: "body = ''json'' @ b" by (auto simp: prefix_def)
    show ?thesis
      unfolding remove_outer_markers_def Let_def j
      using True by (simp add: b fence_def)
  next
    case False
    show ?thesis
      unfolding remove_outer_markers_def Let_def j
      using False by (simp add: fence_def)
  qed
  then show ?thesis using pf assms by (simp add: strategy4_def)
qed

lemma strategy4_short:
  assumes "prefix fence (strip resp)" "suffix fence (strip resp)" "length (strip resp) < 6"
  shows "strategy4 resp = Some (strip resp)"
  using assms by (simp add: strategy4_def remove_outer_markers_def)

lemma strategy4_None:
  "strategy4 resp = None \<longleftrightarrow> \<not> (prefix fence (strip resp) \<and> suffix fence (strip resp))"
  by (simp add: strategy4_def)

text \<open>
  C7, as amended. The extractor hands at most four candidates to the decoder, in this order,
  each only after every earlier one has raised \<open>JSONDecodeError\<close>, and returns the plan of
  the first candidate decoded; a strategy that finds nothing hands over no candidate.
  (1) The trimmed text. (2) When the text holds the opener \<open>```json\<close> with a fence after it:
  what stands between the leftmost such opener and the first fence that follows, without the
  white space around it. (3) When an opening brace is followed by a closing brace: the text
  from the first opening brace to the last closing brace. (4) When the trimmed text starts
  and ends with a fence: the trimmed text without its first three and its last three
  characters, without the tag \<open>json\<close> when it comes first, and without the white space in
  front of what is left; a trimmed text shorter than six characters is handed over as it is.
  Any other language tag stays in the candidate. On the reply "Here is the plan:", a
  json-tagged fence around \<open>{"a":1}\<close>, "Thanks", a decoder that rejects the whole text
  and decodes \<open>{"a":1}\<close> makes the extractor return that value after exactly two attempts.
\<close>

theorem extractor_cascade_strategies:
  "plan (parse_analysis_response loads resp) = fst (cascade loads (candidates resp)) \<and>
   attempts (parse_analysis_response loads resp) = snd (cascade loads (candidates resp)) \<and>
   prefix (attempts (parse_analysis_response loads resp)) (candidates resp) \<and>
   (\<forall>i. Suc i < length (attempts (parse_analysis_response loads resp)) \<longrightarrow>
      loads (attempts (parse_analysis_response loads resp) ! i) = JSONDecodeError) \<and>
   candidates resp =
     List.map_filter (\<lambda>s. s resp) [strategy1, strategy2, strategy3, strategy4] \<and>
   strategy1 resp = Some (strip resp) \<and>
   (strategy2 resp = None \<longleftrightarrow>
      \<not> (\<exists>pre mid post. resp = pre @ fence @ ''json'' @ mid @ fence @ post)) \<and>
   (\<forall>c. strategy2 resp = Some c \<longrightarrow>
      (\<exists>pre w1 w2 post. resp = pre @ fence @ ''json'' @ w1 @ c @ w2 @ fence @ post \<and>
         \<not> sublist (fence @ ''json'') (pre @ fence @ ''jso'') \<and>
         list_all isspace w1 \<and> list_all isspace w2 \<and>
         (c = [] \<or> \<not> isspace (hd c) \<and> \<not> isspace (last c)) \<and>
         (\<forall>k<length c. \<not> prefix fence (lstrip (drop k c @ w2 @ fence @ post))))) \<and>
   (\<forall>c. strategy3 resp = Some c \<longleftrightarrow>
      (\<exists>pre post. resp = pre @ c @ post \<and> c \<noteq> [] \<and> hd c = CHR ''{'' \<and> last c = CHR ''}'' \<and>
         CHR ''{'' \<notin> set pre \<and> CHR ''}'' \<notin> set post)) \<and>
   (strategy4 resp = None \<longleftrightarrow>
      \<not> (prefix fence (strip resp) \<and> suffix fence (strip resp))) \<and>
   (\<forall>body. strip resp = fence @ body @ fence \<longrightarrow>
      strategy4 resp = Some (lstrip (if prefix ''json'' body then drop 4 body else body))) \<and>
   (prefix fence (strip resp) \<and> suffix fence (strip resp) \<and> length (strip resp) < 6 \<longrightarrow>
      strategy4 resp = Some (strip resp)) \<and>
   (loads (strip example_reply) = JSONDecodeError \<and> loads ''{\"a\":1}'' = Decoded v \<longrightarrow>
      plan (parse_analysis_response loads example_reply) = Some v \<and>
      attempts (parse_analysis_response loads example_reply) = [strip example_reply, ''{\"a\":1}''])"
proof -
  let ?r = "parse_analysis_response loads resp"
  have c1: "plan ?r = fst (cascade loads (candidates resp))"
    and c2: "attempts ?r = snd (cascade loads (candidates resp))"
    using parse_analysis_response_cascade[of loads resp] by simp_all
  have c3: "prefix (attempts ?r) (candidates resp)"
    unfolding c2 by (rule cascade_prefix)
  have c4: "\<forall>i. Suc i < length (attempts ?r) \<longrightarrow> loads (attempts ?r ! i) = JSONDecodeError"
    unfolding c2 using cascade_failed_before[of _ loads "candidates resp"] by blast
  have c5: "candidates resp =
      List.map_filter (\<lambda>s. s resp) [strategy1, strategy2, strategy3, strategy4]"
    by (simp only: candidates_def)
  have s1: "strategy1 resp = Some (strip resp)"
    by (simp only: strategy1_def)
  have s2n: "strategy2 resp = None \<longleftrightarrow>
      \<not> (\<exists>pre mid post. resp = pre @ fence @ ''json'' @ mid @ fence @ post)"
  proof
    assume n: "strategy2 resp = None"
    show "\<not> (\<exists>pre mid post. resp = pre @ fence @ ''json'' @ mid @ fence @ post)"
    proof
      assume "\<exists>pre mid post. resp = pre @ fence @ ''json'' @ mid @ fence @ post"
      then obtain pre mid post where "resp = pre @ fence @ ''json'' @ mid @ fence @ post"
        by blast
      then have "json_block_pattern resp \<noteq> None"
        using json_block_pattern_complete[of pre mid post] by simp
      then show False using n by (simp add: strategy2_def)
    qed
  next
    assume a: "\<not> (\<exists>pre mid post. resp = pre @ fence @ ''json'' @ mid @ fence @ post)"
    show "strategy2 resp = None"
    proof (cases "json_block_pattern resp")
      case None
      then show ?thesis by (simp add: strategy2_def)
    next
      case (Some g)
      from json_block_pattern_shortest[OF Some] obtain pre w1 w2 post where
        "resp = pre @ fence @ ''json'' @ w1 @ g @ w2 @ fence @ post" by blast
      then have "resp = pre @ fence @ ''json'' @ (w1 @ g @ w2) @ fence @ post" by simp
      then show ?thesis using a by blast
    qed
  qed
  have s2: "\<forall>c. strategy2 resp = Some c \<longrightarrow>
      (\<exists>pre w1 w2 post. resp = pre @ fence @ ''json'' @ w1 @ c @ w2 @ fence @ post \<and>
         \<not> sublist (fence @ ''json'') (pre @ fence @ ''jso'') \<and>
         list_all isspace w1 \<and> list_all isspace w2 \<and>
         (c = [] \<or> \<not> isspace (hd c) \<and> \<not> isspace (last c)) \<and>
         (\<forall>k<length c. \<not> prefix fence (lstrip (drop k c @ w2 @ fence @ post))))"
  proof (intro allI impI)
    fix c assume "strategy2 resp = Some c"
    then obtain g where g: "json_block_pattern resp = Some g" and c: "c = strip g"
      by (auto simp: strategy2_def)
    from json_block_pattern_shortest[OF g] obtain pre w1 w2 post where
      d: "resp = pre @ fence @ ''json'' @ w1 @ g @ w2 @ fence @ post \<and>
           \<not> sublist (fence @ ''json'') (pre @ fence @ ''jso'') \<and>
           list_all isspace w1 \<and> list_all isspace w2 \<and>
           (g = [] \<or> \<not> isspace (hd g) \<and> \<not> isspace (last g)) \<and>
           (\<forall>k<length g. \<not> prefix fence (lstrip (drop k g @ w2 @ fence @ post)))"
      by blast
    then have "strip g = g" using strip_block by blast
    then have "c = g" using c by simp
    then show "\<exists>pre w1 w2 post. resp = pre @ fence @ ''json'' @ w1 @ c @ w2 @ fence @ post \<and>
         \<not> sublist (fence @ ''json'') (pre @ fence @ ''jso'') \<and>
         list_all isspace w1 \<and> list_all isspace w2 \<and>
         (c = [] \<or> \<not> isspace (hd c) \<and> \<not> isspace (last c)) \<and>
         (\<forall>k<length c. \<not> prefix fence (lstrip (drop k c @ w2 @ fence @ post)))"
      using d by blast
  qed
  have s3: "\<forall>c. strategy3 resp = Some c \<longleftrightarrow>
      (\<exists>pre post. resp = pre @ c @ post \<and> c \<noteq> [] \<and> hd c = CHR ''{'' \<and> last c = CHR ''}'' \<and>
         CHR ''{'' \<notin> set pre \<and> CHR ''}'' \<notin> set post)"
  proof (intro allI iffI)
    fix c assume "strategy3 resp = Some c"
    then show "\<exists>pre post. resp = pre @ c @ post \<and> c \<noteq> [] \<and> hd c = CHR ''{'' \<and>
        last c = CHR ''}'' \<and> CHR ''{'' \<notin> set pre \<and> CHR ''}'' \<notin> set post"
      using json_pattern_Some[of resp c] by (simp add: strategy3_def)
  next
    fix c assume "\<exists>pre post. resp = pre @ c @ post \<and> c \<noteq> [] \<and> hd c = CHR ''{'' \<and>
        last c = CHR ''}'' \<and> CHR ''{'' \<notin> set pre \<and> CHR ''}'' \<notin> set post"
    then obtain pre post where "resp = pre @ c @ post" "c \<noteq> []" "hd c = CHR ''{''"
      "last c = CHR ''}''" "CHR ''{'' \<notin> set pre" "CHR ''}'' \<notin> set post"
      by blast
    then show "strategy3 resp = Some c"
      using json_pattern_wrapped[of c pre post] by (simp add: strategy3_def)
  qed
  have s4n: "strategy4 resp = None \<longleftrightarrow>
      \<not> (prefix fence (strip resp) \<and> suffix fence (strip resp))"
    by (rule strategy4_None)
  have s4: "\<forall>body. strip resp = fence @ body @ fence \<longrightarrow>
      strategy4 resp = Some (lstrip (if prefix ''json'' body then drop 4 body else body))"
    using strategy4_fenced[of resp] by blast
  have s4s: "prefix fence (strip resp) \<and> suffix fence (strip resp) \<and> length (strip resp) < 6 \<longrightarrow>
      strategy4 resp = Some (strip resp)"
    using strategy4_short[of resp] by blast
  have ex: "loads (strip example_reply) = JSONDecodeError \<and> loads ''{\"a\":1}'' = Decoded v \<longrightarrow>
      plan (parse_analysis_response loads example_reply) = Some v \<and>
      attempts (parse_analysis_response loads example_reply) = [strip example_reply, ''{\"a\":1}'']"
    using parse_analysis_response_cascade[of loads example_reply]
    by (auto simp: example_candidates)
  show ?thesis
    by (intro conjI; (fact c1 c2 c3 c4 c5 s1 s2n s2 s3 s4n s4 s4s ex))
qed

theorem extractor_cascade_strategies_witness:
  "json_loads (strip example_reply) = JSONDecodeError \<and>
   json_loads ''{\"a\":1}'' = Decoded (JObject [(''a'', JInt 1)]) \<and>
   plan (parse_analysis_response json_loads example_reply) = Some (JObject [(''a'', JInt 1)]) \<and>
   attempts (parse_analysis_response json_loads example_reply) =
     [strip example_reply, ''{\"a\":1}''] \<and>
   strip (untagged_fence scalar_array_value) = fence @ (''\<newline>'' @ scalar_array_value @ ''\<newline>'') @ fence \<and>
   strategy4 (untagged_fence scalar_array_value) = Some (scalar_array_value @ ''\<newline>'') \<and>
   strip python_fence_reply = fence @ ''python\<newline>[1,2]\<newline>'' @ fence \<and>
   strategy4 python_fence_reply = Some ''python\<newline>[1,2]\<newline>'' \<and>
   length (strip ''````'') < 6 \<and>
   strategy4 ''````'' = Some ''````''"
proof -
  have a: "json_loads (strip example_reply) = JSONDecodeError" by code_simp
  have b: "json_loads ''{\"a\":1}'' = Decoded (JObject [(''a'', JInt 1)])" by code_simp
  have e: "plan (parse_analysis_response json_loads example_reply) = Some (JObject [(''a'', JInt 1)]) \<and>
      attempts (parse_analysis_response json_loads example_reply) = [strip example_reply, ''{\"a\":1}'']"
    using extractor_cascade_strategies[of json_loads example_reply "JObject [(''a'', JInt 1)]"] a b
    by blast
  have u: "strip (untagged_fence scalar_array_value) =
      fence @ (''\<newline>'' @ scalar_array_value @ ''\<newline>'') @ fence"
    by code_simp
  have u4: "strategy4 (untagged_fence scalar_array_value) =
      Some (lstrip (if prefix ''json'' (''\<newline>'' @ scalar_array_value @ ''\<newline>'')
                    then drop 4 (''\<newline>'' @ scalar_array_value @ ''\<newline>'')
                    else ''\<newline>'' @ scalar_array_value @ ''\<newline>''))"
    using extractor_cascade_strategies[of json_loads "untagged_fence scalar_array_value"] u
    by blast
  have ul: "lstrip (if prefix ''json'' (''\<newline>'' @ scalar_array_value @ ''\<newline>'')
                    then drop 4 (''\<newline>'' @ scalar_array_value @ ''\<newline>'')
                    else ''\<newline>'' @ scalar_array_value @ ''\<newline>'') =
      scalar_array_value @ ''\<newline>''"
    by code_simp
  have p: "strip python_fence_reply = fence @ ''python\<newline>[1,2]\<newline>'' @ fence"
    by code_simp
  have p4: "strategy4 python_fence_reply =
      Some (lstrip (if prefix ''json'' ''python\<newline>[1,2]\<newline>''
                    then drop 4 ''python\<newline>[1,2]\<newline>''
                    else ''python\<newline>[1,2]\<newline>''))"
    using extractor_cascade_strategies[of json_loads python_fence_reply] p by blast
  have pl: "lstrip (if prefix ''json'' ''python\<newline>[1,2]\<newline>''
                    then drop 4 ''python\<newline>[1,2]\<newline>''
                    else ''python\<newline>[1,2]\<newline>'') = ''python\<newline>[1,2]\<newline>''"
    by code_simp
  have q: "prefix fence (strip ''````'')" "suffix fence (strip ''````'')" "length (strip ''````'') < 6"
    by code_simp+
  have q4: "strategy4 ''````'' = Some (strip ''````'')"
    using extractor_cascade_strategies[of json_loads "''````''"] q by blast
  have qs: "strip ''````'' = ''````''" by code_simp
  show ?thesis
    using a b e u u4[unfolded ul] p p4[unfolded pl] q(3) q4[unfolded qs] by blast
qed

theorem outer_fence_counterexample:
  "strategy4 python_fence_reply = Some ''python\<newline>[1,2]\<newline>'' \<and>
   spec_strategy4 python_fence_reply = Some ''[1,2]'' \<and>
   json_loads ''[1,2]'' = Decoded (JArray [JInt 1, JInt 2]) \<and>
   json_loads ''python\<newline>[1,2]\<newline>'' = JSONDecodeError \<and>
   attempts (parse_analysis_response json_loads python_fence_reply) =
     [python_fence_reply, ''python\<newline>[1,2]\<newline>''] \<and>
   plan (parse_analysis_response json_loads python_fence_reply) = None"
proof -
  have 1: "strategy4 python_fence_reply = Some ''python\<newline>[1,2]\<newline>''" by code_simp
  have 2: "spec_strategy4 python_fence_reply = Some ''[1,2]''" by code_simp
  have 3: "json_loads ''[1,2]'' = Decoded (JArray [JInt 1, JInt 2])" by code_simp
  have 4: "json_loads ''python\<newline>[1,2]\<newline>'' = JSONDecodeError" by code_simp
  have 5: "attempts (parse_analysis_response json_loads python_fence_reply) =
     [python_fence_reply, ''python\<newline>[1,2]\<newline>'']" by code_simp
  have 6: "plan (parse_analysis_response json_loads python_fence_reply) = None" by code_simp
  show ?thesis using 1 2 3 4 5 6 by blast
qed

section \<open>Properties of the parser\<close>

text \<open>
  C6. The prompt of the validation stage asks for new files to be marked
  \<open>--- File: path/to/new/file (NEW) ---\<close>, the annotation before the closing sentinel. On such
  a line the pattern of \<open>parse_validation_response\<close>, which expects the annotation after the
  closing sentinel, matches with the annotation inside group 1, and the file is stored under
  the path with the annotation in it. The three other shapes it reads as intended. The
  pattern of \<open>parse_generation_response\<close> has no case for the annotation and keeps it in the
  path wherever it stands.
\<close>

theorem marker_annotation_kept_in_path:
  "validation_delimiter_pattern ''--- File: tests/New.robot (NEW) ---'' =
     Some ''tests/New.robot (NEW)'' \<and>
   parse_validation_files ''--- File: tests/New.robot (NEW) ---\<newline>*** Test Cases ***'' =
     [(''tests/New.robot (NEW)'', ''*** Test Cases ***'')] \<and>
   validation_delimiter_pattern ''--- File: tests/New.robot --- (NEW)'' = Some ''tests/New.robot'' \<and>
   validation_delimiter_pattern ''--- File: tests/New.robot (NEW)'' = Some ''tests/New.robot'' \<and>
   validation_delimiter_pattern ''--- File: tests/New.robot ---'' = Some ''tests/New.robot'' \<and>
   validation_delimiter_pattern ''--- File: tests/New.robot'' = Some ''tests/New.robot'' \<and>
   file_delimiter_pattern ''--- File: tests/New.robot (NEW) ---'' = Some ''tests/New.robot (NEW)'' \<and>
   file_delimiter_pattern ''--- File: tests/New.robot (NEW)'' = Some ''tests/New.robot (NEW)'' \<and>
   file_delimiter_pattern ''--- File: tests/New.robot --- (NEW)'' =
     Some ''tests/New.robot --- (NEW)''"
  by code_simp

subsection \<open>The loop over the lines\<close>

lemma dict_set_new: "k \<notin> fst ` set fs \<Longrightarrow> dict_set k v fs = fs @ [(k, v)]"
  by (induction fs) auto

lemma parse_line_marker:
  "delim l = Some g \<Longrightarrow>
     files (parse_line delim post st l) = save_current post st \<and>
     current_path (parse_line delim post st l) = Some (strip g) \<and>
     current_content (parse_line delim post st l) = []"
  by (simp add: parse_line_def)

lemma parse_line_preamble:
  "delim l = None \<Longrightarrow> current_path st = None \<Longrightarrow> parse_line delim post st l = st"
  by (simp add: parse_line_def)

lemma parse_line_body:
  "delim l = None \<Longrightarrow> current_path st = Some p \<Longrightarrow>
     files (parse_line delim post st l) = files st \<and>
     current_path (parse_line delim post st l) = Some p \<and>
     current_content (parse_line delim post st l) = current_content st @ [l]"
  by (simp add: parse_line_def)

lemma parse_loop:
  "save_current post (foldl (parse_line delim post) st ls) =
     foldl (store_chunk post) (files st)
       (case current_path st of
          None \<Rightarrow> chunks delim ls
        | Some p \<Rightarrow> (p, current_content st @ takeWhile (\<lambda>x. delim x = None) ls) # chunks delim ls)"
proof (induction ls arbitrary: st)
  case Nil
  then show ?case
    by (simp add: save_current_def store_chunk_def split: option.split)
next
  case (Cons l ls)
  define st' where "st' = parse_line delim post st l"
  have ih: "save_current post (foldl (parse_line delim post) st (l # ls)) =
     foldl (store_chunk post) (files st')
       (case current_path st' of
          None \<Rightarrow> chunks delim ls
        | Some p \<Rightarrow> (p, current_content st' @ takeWhile (\<lambda>x. delim x = None) ls) # chunks delim ls)"
    using Cons.IH[of st'] by (simp add: st'_def)
  show ?case
  proof (cases "delim l")
    case None
    show ?thesis
    proof (cases "current_path st")
      case n: None
      have "st' = st" using parse_line_preamble[of delim l st post] None n by (simp add: st'_def)
      then show ?thesis using ih None n by simp
    next
      case (Some p)
      have "files st' = files st" "current_path st' = Some p"
        "current_content st' = current_content st @ [l]"
        using parse_line_body[of delim l st p post] None Some by (simp_all add: st'_def)
      then show ?thesis using ih None Some by simp
    qed
  next
    case (Some g)
    have f: "files st' = save_current post st" "current_path st' = Some (strip g)"
      "current_content st' = []"
      using parse_line_marker[of delim l g post st] Some by (simp_all add: st'_def)
    have sc: "save_current post st =
        (case current_path st of
           None \<Rightarrow> files st
         | Some p \<Rightarrow> store_chunk post (files st) (p, current_content st))"
      by (simp add: save_current_def store_chunk_def split: option.split)
    have "save_current post (foldl (parse_line delim post) st (l # ls)) =
        foldl (store_chunk post)
          (store_chunk post (save_current post st) (strip g, takeWhile (\<lambda>x. delim x = None) ls))
          (chunks delim ls)"
      using ih f by simp
    also have "\<dots> =
        foldl (store_chunk post) (files st)
          (case current_path st of
             None \<Rightarrow> chunks delim (l # ls)
           | Some p \<Rightarrow>
               (p, current_content st @ takeWhile (\<lambda>x. delim x = None) (l # ls)) #
               chunks delim (l # ls))"
      using Some by (cases "current_path st") (simp_all add: sc)
    finally show ?thesis .
  qed
qed

lemma parse_files_chunks:
  "parse_files delim post response =
     foldl (store_chunk post) [] (chunks delim (split_nl (strip response)))"
  by (simp add: parse_files_def parse_loop initial_state_def)

lemma fold_store_distinct:
  "distinct (map (normalize_sep \<circ> fst) cs) \<Longrightarrow>
   (\<forall>c\<in>set cs. normalize_sep (fst c) \<notin> fst ` set acc) \<Longrightarrow>
   foldl (store_chunk post) acc cs = acc @ map (entry_of post) cs"
proof (induction cs arbitrary: acc)
  case Nil
  then show ?case by simp
next
  case (Cons c cs)
  have s: "store_chunk post acc c = acc @ [entry_of post c]"
    using Cons.prems(2) by (simp add: store_chunk_def entry_of_def dict_set_new)
  have "normalize_sep (fst d) \<notin> fst ` set (acc @ [entry_of post c])" if "d \<in> set cs" for d
  proof -
    have "normalize_sep (fst d) \<noteq> normalize_sep (fst c)"
      using Cons.prems(1) that by (auto simp: image_iff)
    moreover have "normalize_sep (fst d) \<notin> fst ` set acc"
      using Cons.prems(2) that by simp
    ultimately show ?thesis by (simp add: entry_of_def)
  qed
  then have "\<forall>d\<in>set cs. normalize_sep (fst d) \<notin> fst ` set (acc @ [entry_of post c])"
    by blast
  then have "foldl (store_chunk post) (acc @ [entry_of post c]) cs =
      (acc @ [entry_of post c]) @ map (entry_of post) cs"
    using Cons.IH Cons.prems(1) by simp
  then show ?case by (simp add: s)
qed

lemma length_chunks:
  "length (chunks delim ls) = length (filter (\<lambda>l. delim l \<noteq> None) ls)"
  by (induction ls) (auto split: option.split)

lemma chunks_no_marker: "list_all (\<lambda>l. delim l = None) ls \<Longrightarrow> chunks delim ls = []"
  by (induction ls) auto

text \<open>
  C4, as amended. \<open>parse_generation_response\<close> is total. Its result is what storing the
  files of the reply one after the other gives, a file being a marker line with the lines
  buffered up to the next marker, the last one up to the end of the trimmed reply; there are
  as many files as marker lines. When their paths are distinct once the backslashes are
  turned into slashes, the result has one entry per marker, in the order of the markers,
  keyed by that path, and the body is the post-processed newline join of the buffered lines
  (verbatim for a markdown path, without the fence lines otherwise). A reply with no marker
  line gives the empty result and the warning.
\<close>

theorem parser_entries_in_marker_order:
  "fst (parse_generation_response response) =
     foldl (store_chunk post_process) []
       (chunks file_delimiter_pattern (split_nl (strip response))) \<and>
   length (chunks file_delimiter_pattern (split_nl (strip response))) =
     length (filter (\<lambda>l. file_delimiter_pattern l \<noteq> None) (split_nl (strip response))) \<and>
   (distinct (map (normalize_sep \<circ> fst) (chunks file_delimiter_pattern (split_nl (strip response)))) \<longrightarrow>
      fst (parse_generation_response response) =
        map (entry_of post_process) (chunks file_delimiter_pattern (split_nl (strip response)))) \<and>
   (list_all (\<lambda>l. file_delimiter_pattern l = None) (split_nl (strip response)) \<longrightarrow>
      parse_generation_response response = ([], [ParsingGenerationResponse, WarnNoFilesExtracted])) \<and>
   parse_generation_response example_generation_reply =
     ([(''pages/LoginPage.robot'', ''LOGIN = id=login''),
       (''tests/LoginTests.robot'', ''Suite Setup  Open Browser'')],
      [ParsingGenerationResponse, ExtractedFiles 2])"
proof -
  let ?cs = "chunks file_delimiter_pattern (split_nl (strip response))"
  have a: "fst (parse_generation_response response) = foldl (store_chunk post_process) [] ?cs"
    by (simp add: parse_generation_response_def Let_def parse_files_chunks)
  have b: "length ?cs =
      length (filter (\<lambda>l. file_delimiter_pattern l \<noteq> None) (split_nl (strip response)))"
    by (rule length_chunks)
  have c: "distinct (map (normalize_sep \<circ> fst) ?cs) \<longrightarrow>
      fst (parse_generation_response response) = map (entry_of post_process) ?cs"
    using fold_store_distinct[of ?cs "[]" post_process] a by simp
  have d: "list_all (\<lambda>l. file_delimiter_pattern l = None) (split_nl (strip response)) \<longrightarrow>
      parse_generation_response response = ([], [ParsingGenerationResponse, WarnNoFilesExtracted])"
    using chunks_no_marker[of file_delimiter_pattern "split_nl (strip response)"]
    by (simp add: parse_generation_response_def Let_def parse_files_chunks)
  have e: "parse_generation_response example_generation_reply =
     ([(''pages/LoginPage.robot'', ''LOGIN = id=login''),
       (''tests/LoginTests.robot'', ''Suite Setup  Open Browser'')],
      [ParsingGenerationResponse, ExtractedFiles 2])"
    by code_simp
  show ?thesis
    by (intro conjI a b c d e)
qed

theorem parser_entries_in_marker_order_witness:
  "distinct (map (normalize_sep \<circ> fst)
     (chunks file_delimiter_pattern (split_nl (strip example_generation_reply)))) \<and>
   fst (parse_generation_response example_generation_reply) =
     map (entry_of post_process) [(''pages/LoginPage.robot'', [''```'', ''LOGIN = id=login'', ''```'']),
       (''tests/LoginTests.robot'', [''Suite Setup  Open Browser''])] \<and>
   list_all (\<lambda>l. file_delimiter_pattern l = None) (split_nl (strip ''no marker here'')) \<and>
   parse_generation_response ''no marker here'' =
     ([], [ParsingGenerationResponse, WarnNoFilesExtracted])"
proof -
  have c: "chunks file_delimiter_pattern (split_nl (strip example_generation_reply)) =
      [(''pages/LoginPage.robot'', [''```'', ''LOGIN = id=login'', ''```'']),
       (''tests/LoginTests.robot'', [''Suite Setup  Open Browser''])]"
    by code_simp
  have h1: "distinct (map (normalize_sep \<circ> fst)
     (chunks file_delimiter_pattern (split_nl (strip example_generation_reply))))"
    unfolding c by code_simp
  have h2: "list_all (\<lambda>l. file_delimiter_pattern l = None) (split_nl (strip ''no marker here''))"
    by code_simp
  have i1: "fst (parse_generation_response example_generation_reply) =
      map (entry_of post_process)
        (chunks file_delimiter_pattern (split_nl (strip example_generation_reply)))"
    using parser_entries_in_marker_order[of example_generation_reply] h1 by blast
  have i2: "parse_generation_response ''no marker here'' =
      ([], [ParsingGenerationResponse, WarnNoFilesExtracted])"
    using parser_entries_in_marker_order[of "''no marker here''"] h2 by blast
  show ?thesis
    using h1 h2 i1[unfolded c] i2 by blast
qed

theorem parser_entries_counterexample:
  "chunks file_delimiter_pattern (split_nl (strip fenced_body_reply)) =
     [(''a.py'', [''```'', ''x = 1''])] \<and>
   fst (parse_generation_response fenced_body_reply) = [(''a.py'', ''x = 1'')] \<and>
   join_nl [''```'', ''x = 1''] \<noteq> ''x = 1'' \<and>
   chunks file_delimiter_pattern (split_nl (strip backslash_reply)) =
     [(''a'' @ [CHR 0x5C] @ ''b'', [''x'']), (''a/b'', [''y''])] \<and>
   ''a'' @ [CHR 0x5C] @ ''b'' \<noteq> ''a/b'' \<and>
   fst (parse_generation_response backslash_reply) = [(''a/b'', ''y'')]"
  by code_simp

subsection \<open>Post-processing of a buffer\<close>

lemma process_lines_filter:
  "process_lines buf False b acc = acc @ filter (\<lambda>l. \<not> code_block_pattern (strip l)) buf"
  by (induction buf arbitrary: b acc) simp_all

lemma process_content_markdown: "process_content buf True = join_nl buf"
  by (simp add: process_content_def)

lemma process_content_other:
  "process_content buf False = join_nl (filter (\<lambda>l. \<not> code_block_pattern (strip l)) buf)"
  by (simp add: process_content_def process_lines_filter)


lemma clean_content_single:
  "clean_content [l] = (if markdown_fence_pattern l then [] else strip l)"
  by (simp add: clean_content_def Let_def strip_def lstrip_def rstrip_def)

lemma clean_content_ends:
  "clean_content (first # mid @ [lst]) =
     strip (join_nl ((if markdown_fence_pattern first then [] else [first]) @ mid @
                     (if markdown_fence_pattern lst then [] else [lst])))"
  by (simp add: clean_content_def Let_def butlast_append)

lemma markdown_fence_pattern_iff:
  "markdown_fence_pattern l \<longleftrightarrow>
     (\<exists>w1 tag w2. l = w1 @ fence @ tag @ w2 \<and>
        list_all isspace w1 \<and> list_all word_char tag \<and> list_all isspace w2)"
proof
  assume m: "markdown_fence_pattern l"
  obtain w1 where w1: "l = w1 @ lstrip l" "list_all isspace w1"
    using lstrip_decomp by blast
  from m obtain rest where rest: "lstrip l = fence @ rest"
    by (auto simp: markdown_fence_pattern_def prefix_def)
  have d: "drop 3 (lstrip l) = rest" using rest by (simp add: fence_def)
  let ?tag = "takeWhile word_char rest"
  let ?w2 = "dropWhile word_char rest"
  have "l = w1 @ fence @ ?tag @ ?w2" using w1(1) rest by simp
  moreover have "list_all word_char ?tag"
    by (simp add: list_all_iff) (meson set_takeWhileD)
  moreover have "list_all isspace ?w2"
    using m d by (simp add: markdown_fence_pattern_def)
  ultimately show "\<exists>w1 tag w2. l = w1 @ fence @ tag @ w2 \<and>
        list_all isspace w1 \<and> list_all word_char tag \<and> list_all isspace w2"
    using w1(2) by blast
next
  assume "\<exists>w1 tag w2. l = w1 @ fence @ tag @ w2 \<and>
        list_all isspace w1 \<and> list_all word_char tag \<and> list_all isspace w2"
  then obtain w1 tag w2 where l: "l = w1 @ fence @ tag @ w2"
    and w: "list_all isspace w1" "list_all word_char tag" "list_all isspace w2"
    by blast
  have "lstrip l = lstrip (fence @ tag @ w2)"
    using w(1) unfolding l by (simp add: lstrip_def dropWhile_append list_all_iff)
  then have s: "lstrip l = fence @ tag @ w2" by (simp add: lstrip_fence)
  then have d: "drop 3 (lstrip l) = tag @ w2" by (simp add: fence_def)
  have "dropWhile word_char (tag @ w2) = dropWhile word_char w2"
    using w(2) by (simp add: dropWhile_append list_all_iff)
  moreover have "list_all isspace (dropWhile word_char w2)"
    using w(3) by (simp add: list_all_iff) (meson set_dropWhileD)
  ultimately show "markdown_fence_pattern l"
    using s d by (simp add: markdown_fence_pattern_def)
qed

text \<open>
  C5, as amended. In \<open>code2test.py\<close> (\<open>parse_generation_response\<close> and
  \<open>parse_validation_response\<close>) a flushed buffer whose path ends in \<open>.md\<close> or \<open>.markdown\<close>,
  whatever the case of its letters, is joined verbatim, fence lines included. For every
  other path the body is the join of the buffered lines without the fence lines, wherever
  they stand: a fence line is a line that, once trimmed, is the triple backtick followed by
  word characters only. Every other line is kept as it is, the blank ones and the ones that
  hold backticks next to other text too. In \<open>code2testt.py\<close> (\<open>parse_ai_response\<close>) every
  buffer, whatever its path, goes through \<open>clean_content\<close>: the first line is removed when it
  is a fence line, then the last line when it is one, every line in between is kept, fence
  lines too, and the joined body is trimmed; there a fence line is white space, the triple
  backtick, word characters and white space, each but the backticks possibly absent.
  (So \<open>clean_content\<close> does not do what the claim says: \<open>clean_content_counterexample\<close>.)
\<close>

theorem fence_lines_dropped:
  "process_content buf True = join_nl buf \<and>
   process_content buf False = join_nl (filter (\<lambda>l. \<not> code_block_pattern (strip l)) buf) \<and>
   post_process p buf =
     (if is_markdown_path p then join_nl buf
      else join_nl (filter (\<lambda>l. \<not> code_block_pattern (strip l)) buf)) \<and>
   code_block_pattern (strip line) = (prefix fence (strip line) \<and> list_all word_char (drop 3 (strip line))) \<and>
   post_process ''docs/README.md'' [''```python'', ''x = 1'', ''```''] =
     ''```python\<newline>x = 1\<newline>```'' \<and>
   post_process ''lib/util.py'' [''```python'', ''x = `a```'', '''', ''  ```  '', ''y'', ''```''] =
     ''x = `a```\<newline>\<newline>y'' \<and>
   parse_ai_response response =
     foldl (store_chunk (\<lambda>p. clean_content)) []
       (chunks file_delimiter_pattern (split_nl (strip response))) \<and>
   store_chunk (\<lambda>p. clean_content) fs (p, buf) = dict_set (normalize_sep p) (clean_content buf) fs \<and>
   clean_content [] = [] \<and>
   clean_content [line] = (if markdown_fence_pattern line then [] else strip line) \<and>
   clean_content (first # mid @ [lst]) =
     strip (join_nl ((if markdown_fence_pattern first then [] else [first]) @ mid @
                     (if markdown_fence_pattern lst then [] else [lst]))) \<and>
   (markdown_fence_pattern line \<longleftrightarrow>
     (\<exists>w1 tag w2. line = w1 @ fence @ tag @ w2 \<and>
        list_all isspace w1 \<and> list_all word_char tag \<and> list_all isspace w2)) \<and>
   clean_content [''```'', ''a'', ''```'', ''b'', ''```''] = ''a\<newline>```\<newline>b''"
proof -
  have 1: "post_process ''docs/README.md'' [''```python'', ''x = 1'', ''```''] =
     ''```python\<newline>x = 1\<newline>```''"
    by code_simp
  have 2: "post_process ''lib/util.py'' [''```python'', ''x = `a```'', '''', ''  ```  '', ''y'', ''```''] =
     ''x = `a```\<newline>\<newline>y''"
    by code_simp
  have 3: "post_process p buf =
     (if is_markdown_path p then join_nl buf
      else join_nl (filter (\<lambda>l. \<not> code_block_pattern (strip l)) buf))"
    by (simp add: process_content_markdown process_content_other post_process_def)
  have 4: "code_block_pattern (strip line) =
      (prefix fence (strip line) \<and> list_all word_char (drop 3 (strip line)))"
    by (simp only: code_block_pattern_def)
  have 5: "parse_ai_response response =
     foldl (store_chunk (\<lambda>p. clean_content)) []
       (chunks file_delimiter_pattern (split_nl (strip response)))"
    by (simp only: parse_ai_response_def parse_files_chunks)
  have 6: "store_chunk (\<lambda>p. clean_content) fs (p, buf) =
      dict_set (normalize_sep p) (clean_content buf) fs"
    by (simp add: store_chunk_def)
  have 7: "clean_content [] = []" by (simp add: clean_content_def)
  have 8: "clean_content [''```'', ''a'', ''```'', ''b'', ''```''] = ''a\<newline>```\<newline>b''"
    by code_simp
  show ?thesis
    by (intro conjI; (fact process_content_markdown process_content_other 1 2 3 4 5 6 7 8
          clean_content_single clean_content_ends markdown_fence_pattern_iff))
qed

theorem clean_content_counterexample:
  "clean_content [''x = 1'', ''```'', ''y = 2''] = ''x = 1\<newline>```\<newline>y = 2'' \<and>
   parse_ai_response ''--- File: lib/util.py ---\<newline>x = 1\<newline>```\<newline>y = 2'' =
     [(''lib/util.py'', ''x = 1\<newline>```\<newline>y = 2'')] \<and>
   parse_ai_response ''--- File: README.md ---\<newline>```\<newline>Usage\<newline>```'' =
     [(''README.md'', ''Usage'')]"
  by code_simp

section \<open>Properties of the materializer\<close>

lemma printed_outcome_append:
  "printed_outcome (a @ b) =
     (fst (printed_outcome a) @ fst (printed_outcome b),
      snd (printed_outcome a) @ snd (printed_outcome b))"
  by (simp add: printed_outcome_def List.map_filter_def)

lemma printed_outcome_one:
  "printed_outcome [m] =
     ((case written_path m of None \<Rightarrow> [] | Some p \<Rightarrow> [p]),
      (case skipped_entry m of None \<Rightarrow> [] | Some e \<Rightarrow> [e]))"
  by (simp add: printed_outcome_def List.map_filter_def split: option.split)













subsection \<open>The sandbox check\<close>

lemma written_say:
  "fst (printed_outcome (console (say m r))) =
     fst (printed_outcome (console r)) @ (case written_path m of None \<Rightarrow> [] | Some p \<Rightarrow> [p])"
  by (simp add: say_def printed_outcome_append printed_outcome_one)

lemma make_file_dir_written:
  "case make_file_dir os d full_path r of
     Inl (x, r1) \<Rightarrow> fst (printed_outcome (console r1)) = fst (printed_outcome (console r))
   | Inr r1 \<Rightarrow> fst (printed_outcome (console r1)) = fst (printed_outcome (console r))"
  by (auto simp: make_file_dir_def Let_def say_def printed_outcome_append printed_outcome_one
      split: prod.splits option.splits exn.splits)

lemma store_entry_written_inside:
  "set (fst (printed_outcome (console (snd (store_entry os d r e))))) \<subseteq>
     set (fst (printed_outcome (console r))) \<union> {p. inside_output_dir d p}"
proof -
  let ?fp = "abspath (getcwd os (world r)) (path_join d (normpath (fst e)))"
  note mf = make_file_dir_written[where os = os and d = d and full_path = ?fp and r = r]
  show ?thesis
  proof (cases "make_file_dir os d ?fp r")
    case (Inl stop)
    then show ?thesis
      using mf by (cases stop) (auto simp: store_entry_def Let_def written_say)
  next
    case (Inr r1)
    then have r1: "fst (printed_outcome (console r1)) = fst (printed_outcome (console r))"
      using mf by simp
    show ?thesis
    proof (cases "write_file os (world r1) ?fp (snd e)")
      case (Pair x w')
      show ?thesis
        using r1 Inr Pair
        by (cases x)
           (auto simp: store_entry_def Let_def say_def printed_outcome_append printed_outcome_one)
    qed
  qed
qed

lemma store_loop_written_inside:
  "set (fst (printed_outcome (console (snd (store_loop os d es r))))) \<subseteq>
     set (fst (printed_outcome (console r))) \<union> {p. inside_output_dir d p}"
proof (induction es arbitrary: r)
  case Nil
  then show ?case by simp
next
  case (Cons e es)
  obtain x r' where s: "store_entry os d r e = (x, r')" by (cases "store_entry os d r e")
  have 1: "set (fst (printed_outcome (console r'))) \<subseteq>
     set (fst (printed_outcome (console r))) \<union> {p. inside_output_dir d p}"
    using store_entry_written_inside[of os d r e] s by simp
  show ?case
  proof (cases x)
    case None
    then have "store_loop os d (e # es) r = store_loop os d es r'" using s by simp
    then show ?thesis using Cons.IH[of r'] 1 by auto
  next
    case (Some a)
    then have "store_loop os d (e # es) r = (Some a, r')" using s by simp
    then show ?thesis using 1 by simp
  qed
qed

lemma clear_output_dir_written:
  "fst (printed_outcome (console (snd (clear_output_dir os d clear_output r)))) =
     fst (printed_outcome (console r))"
  by (auto simp: clear_output_dir_def say_def printed_outcome_append printed_outcome_one
      split: prod.splits option.splits exn.splits)

lemma create_output_dir_written:
  "fst (printed_outcome (console (snd (create_output_dir os d r)))) =
     fst (printed_outcome (console r))"
  by (auto simp: create_output_dir_def say_def printed_outcome_append printed_outcome_one
      split: prod.splits option.splits exn.splits)

lemma written_paths_pass_check:
  "set (fst (printed_outcome (console (snd (store_test_files os entries output_dir clear_output w))))) \<subseteq>
     {p. inside_output_dir (abspath (getcwd os w) output_dir) p}"
proof -
  let ?d = "abspath (getcwd os w) output_dir"
  let ?r0 = "say (StoringFiles output_dir) \<lparr>world = w, console = [], files_written = 0\<rparr>"
  obtain x1 r1 where c1: "clear_output_dir os ?d clear_output ?r0 = (x1, r1)"
    by (cases "clear_output_dir os ?d clear_output ?r0")
  obtain x2 r2 where c2: "create_output_dir os ?d r1 = (x2, r2)"
    by (cases "create_output_dir os ?d r1")
  obtain x3 r3 where c3: "store_loop os ?d entries r2 = (x3, r3)"
    by (cases "store_loop os ?d entries r2")
  have p0: "fst (printed_outcome (console ?r0)) = []"
    by (simp add: say_def printed_outcome_one)
  have p1: "fst (printed_outcome (console r1)) = []"
    using clear_output_dir_written[of os ?d clear_output ?r0] c1 p0 by simp
  have p2: "fst (printed_outcome (console r2)) = []"
    using create_output_dir_written[of os ?d r1] c2 p1 by simp
  have p3: "set (fst (printed_outcome (console r3))) \<subseteq> {p. inside_output_dir ?d p}"
    using store_loop_written_inside[of os ?d entries r2] c3 p2 by simp
  have p4: "fst (printed_outcome (console (say (FinishedStoring n) r3))) =
      fst (printed_outcome (console r3))" for n
    by (simp add: written_say)
  show ?thesis
    using c1 c2 c3 p1 p2 p3 p4
    by (auto simp: store_test_files_def Let_def split: option.splits)
qed

lemma sandbox_rejection_examples:
  "console (snd (store_test_files posix sandbox_entries ''/out'' False fresh_world)) =
     [StoringFiles ''/out'', SkipUnsafePath ''../secret'', SkipAbsolutePath ''/etc/passwd'',
      SkipUnsafePath ''a/../../b'', CreatedSubdir ''/out/a/b'', WroteFile ''/out/a/b/c.txt'',
      FinishedStoring 1] \<and>
   map (nodes (world (snd (store_test_files posix sandbox_entries ''/out'' False fresh_world))))
     [[''out'', ''a''], [''out'', ''a'', ''b''], [''out'', ''a'', ''b'', ''c.txt''],
      [''secret''], [''etc'', ''passwd''], [''b''], [''out'', ''b'']] =
     [Some Dir, Some Dir, Some (File ''c''), None, None, None, None] \<and>
   console (snd (store_test_files_tt posix sandbox_entries ''/out'' False fresh_world)) =
     [SkipUnsafePath ''../secret'', SkipAbsolutePath ''/etc/passwd'',
      SkipUnsafePath ''a/../../b'', CreatedSubdir ''/out/a/b'', WroteFile ''/out/a/b/c.txt'']"
proof -
  have 1: "console (snd (store_test_files posix sandbox_entries ''/out'' False fresh_world)) =
     [StoringFiles ''/out'', SkipUnsafePath ''../secret'', SkipAbsolutePath ''/etc/passwd'',
      SkipUnsafePath ''a/../../b'', CreatedSubdir ''/out/a/b'', WroteFile ''/out/a/b/c.txt'',
      FinishedStoring 1]"
    by code_simp
  have 2: "map (nodes (world (snd (store_test_files posix sandbox_entries ''/out'' False fresh_world))))
     [[''out'', ''a''], [''out'', ''a'', ''b''], [''out'', ''a'', ''b'', ''c.txt''],
      [''secret''], [''etc'', ''passwd''], [''b''], [''out'', ''b'']] =
     [Some Dir, Some Dir, Some (File ''c''), None, None, None, None]"
    by code_simp
  have 3: "console (snd (store_test_files_tt posix sandbox_entries ''/out'' False fresh_world)) =
     [SkipUnsafePath ''../secret'', SkipAbsolutePath ''/etc/passwd'',
      SkipUnsafePath ''a/../../b'', CreatedSubdir ''/out/a/b'', WroteFile ''/out/a/b/c.txt'']"
    by code_simp
  show ?thesis using 1 2 3 by blast
qed

text \<open>
  C1. Every file the materializer writes should resolve to a path inside the output
  directory. What the scripts establish is that the text of every written path starts with
  the text of the output directory (\<open>written_paths_pass_check\<close>), and the four paths of the
  specification's scenario are treated as it says (\<open>sandbox_rejection_examples\<close>). The file
  system is not consulted: where the output directory \<open>/out\<close> holds a symbolic link \<open>link\<close> to
  \<open>/etc\<close>, the entry \<open>link/x\<close> is accepted by both scripts and its content is written to
  \<open>/etc/x\<close>, a file that did not exist and that lies outside \<open>/out\<close>.
\<close>

theorem materializer_symlink_escape:
  "node_at linked_world [''out'', ''link''] = Some (Symlink ''/etc'') \<and>
   node_at linked_world [''etc'', ''x''] = None \<and>
   fst (store_test_files posix [(''link/x'', ''data'')] ''/out'' False linked_world) = Return None \<and>
   console (snd (store_test_files posix [(''link/x'', ''data'')] ''/out'' False linked_world)) =
     [StoringFiles ''/out'', WroteFile ''/out/link/x'', FinishedStoring 1] \<and>
   node_at (world (snd (store_test_files posix [(''link/x'', ''data'')] ''/out'' False linked_world)))
     [''etc'', ''x''] = Some (File ''data'') \<and>
   \<not> prefix [''out''] [''etc'', ''x''] \<and>
   console (snd (store_test_files_tt posix [(''link/x'', ''data'')] ''/out'' False linked_world)) =
     [WroteFile ''/out/link/x''] \<and>
   node_at (world (snd (store_test_files_tt posix [(''link/x'', ''data'')] ''/out'' False linked_world)))
     [''etc'', ''x''] = Some (File ''data'')"
proof -
  have 1: "node_at linked_world [''out'', ''link''] = Some (Symlink ''/etc'')" by code_simp
  have 2: "node_at linked_world [''etc'', ''x''] = None" by code_simp
  have 3: "fst (store_test_files posix [(''link/x'', ''data'')] ''/out'' False linked_world) = Return None"
    by code_simp
  have 4: "console (snd (store_test_files posix [(''link/x'', ''data'')] ''/out'' False linked_world)) =
     [StoringFiles ''/out'', WroteFile ''/out/link/x'', FinishedStoring 1]"
    by code_simp
  have 5: "node_at (world (snd (store_test_files posix [(''link/x'', ''data'')] ''/out'' False linked_world)))
     [''etc'', ''x''] = Some (File ''data'')"
    by code_simp
  have 6: "\<not> prefix [''out''] [''etc'', ''x'']" by simp
  have 7: "console (snd (store_test_files_tt posix [(''link/x'', ''data'')] ''/out'' False linked_world)) =
     [WroteFile ''/out/link/x'']"
    by code_simp
  have 8: "node_at (world (snd (store_test_files_tt posix [(''link/x'', ''data'')] ''/out'' False linked_world)))
     [''etc'', ''x''] = Some (File ''data'')"
    by code_simp
  show ?thesis using 1 2 3 4 5 6 7 8 by blast
qed

text \<open>
  C2. The check should be made on the fully resolved path, symbolic links included. The path
  that the scripts check is \<open>os.path.abspath\<close> of the joined path, which collapses the
  segments of the text and resolves no link, although the comment beside it in
  \<open>code2testt.py\<close> reads ``Resolve any potential symbolic links etc.''. For the entry
  \<open>link/x\<close> and the output directory \<open>/out\<close> the checked path is \<open>/out/link/x\<close>, which passes;
  in the file system above that path resolves to \<open>/etc/x\<close>, which would not pass; the
  iteration writes the file.
\<close>

theorem sandbox_check_on_unresolved_path:
  "normpath ''link/x'' = ''link/x'' \<and>
   abspath (cwd linked_world) (path_join ''/out'' ''link/x'') = ''/out/link/x'' \<and>
   inside_output_dir ''/out'' ''/out/link/x'' \<and>
   realpath linked_world ''/out/link/x'' = Some ''/etc/x'' \<and>
   \<not> inside_output_dir ''/out'' ''/etc/x'' \<and>
   fst (store_entry posix ''/out'' \<lparr>world = linked_world, console = [], files_written = 0\<rparr>
          (''link/x'', ''data'')) = None \<and>
   console (snd (store_entry posix ''/out'' \<lparr>world = linked_world, console = [], files_written = 0\<rparr>
          (''link/x'', ''data''))) = [WroteFile ''/out/link/x'']"
proof -
  have 1: "normpath ''link/x'' = ''link/x''" by code_simp
  have 2: "abspath (cwd linked_world) (path_join ''/out'' ''link/x'') = ''/out/link/x''" by code_simp
  have 3: "inside_output_dir ''/out'' ''/out/link/x''" by code_simp
  have 4: "realpath linked_world ''/out/link/x'' = Some ''/etc/x''" by code_simp
  have 5: "\<not> inside_output_dir ''/out'' ''/etc/x''" by code_simp
  have 6: "fst (store_entry posix ''/out'' \<lparr>world = linked_world, console = [], files_written = 0\<rparr>
          (''link/x'', ''data'')) = None"
    by code_simp
  have 7: "console (snd (store_entry posix ''/out'' \<lparr>world = linked_world, console = [], files_written = 0\<rparr>
          (''link/x'', ''data''))) = [WroteFile ''/out/link/x'']"
    by code_simp
  show ?thesis using 1 2 3 4 5 6 7 by blast
qed

end
